theory Spec2Isabelle
  imports Main "HOL-Library.Sublist"
begin

section \<open>Strings and dictionaries\<close>

text \<open>
  Python strings are modelled as \<open>string\<close>. \<open>str.lower()\<close> is modelled on the ASCII
  range, where it maps \<open>A\<close>..\<open>Z\<close> to \<open>a\<close>..\<open>z\<close> and leaves every other character
  alone.
\<close>

definition lower_char :: "char \<Rightarrow> char" where
  "lower_char c =
     (case map_of (zip ''ABCDEFGHIJKLMNOPQRSTUVWXYZ'' ''abcdefghijklmnopqrstuvwxyz'') c of
        Some l \<Rightarrow> l
      | None \<Rightarrow> c)"

definition lower :: "string \<Rightarrow> string" where
  "lower s = map lower_char s"

text \<open>
  A JSON object is a dictionary with string keys, kept as an association list;
  \<open>d.get(k)\<close> is \<open>dict_get d k\<close>, with \<open>None\<close> for a missing key.  A manifest entry
  is an object whose attributes are strings (\<open>name\<close>, \<open>url\<close>, \<open>type\<close>, \<open>path\<close>,
  \<open>filename\<close>, \<open>sha256\<close>, \<open>repo\<close>); a manifest is an object whose attributes
  (\<open>models\<close>, \<open>custom_nodes\<close>) are lists of entries.
\<close>

type_synonym 'v dict = "(string \<times> 'v) list"

definition dict_get :: "'v dict \<Rightarrow> string \<Rightarrow> 'v option" where
  "dict_get d k = map_of d k"

type_synonym entry = "string dict"

type_synonym manifest = "entry list dict"

text \<open>\<open>manifest.get(k, [])\<close>: the list under \<open>k\<close>, the empty list when the key is missing.\<close>

definition get_list :: "manifest \<Rightarrow> string \<Rightarrow> entry list" where
  "get_list m k = (case dict_get m k of None \<Rightarrow> [] | Some es \<Rightarrow> es)"

text \<open>
  Python's truth value of an optional string: \<open>None\<close> and the empty string are false.
  \<open>truthy (model.get('url'))\<close> is the negation of the source's \<open>not url\<close>.
\<close>

definition truthy :: "string option \<Rightarrow> bool" where
  "truthy v = (case v of None \<Rightarrow> False | Some s \<Rightarrow> s \<noteq> [])"

section \<open>The manifest loader (class ModelManifest)\<close>

record model_manifest =
  models :: "entry list"
  custom_nodes :: "entry list"
  seen_models :: "string \<rightharpoonup> string"
  seen_nodes :: "string \<rightharpoonup> string"

text \<open>\<open>ModelManifest.__init__\<close>\<close>

definition init_manifest :: model_manifest where
  "init_manifest =
     \<lparr>models = [], custom_nodes = [], seen_models = Map.empty, seen_nodes = Map.empty\<rparr>"

text \<open>
  The first loop of \<open>add_manifest\<close>, over \<open>manifest.get('models', [])\<close>.  The accumulator
  is the object \<open>self\<close> with the local counters \<open>models_added\<close> and \<open>models_skipped\<close>.
\<close>

fun add_models ::
  "string \<Rightarrow> entry list \<Rightarrow> model_manifest \<times> nat \<times> nat \<Rightarrow> model_manifest \<times> nat \<times> nat" where
  "add_models source [] (self, models_added, models_skipped) =
     (self, models_added, models_skipped)"
| "add_models source (model # rest) (self, models_added, models_skipped) =
     (case dict_get model ''url'' of
        None \<Rightarrow> add_models source rest (self, models_added, models_skipped)
      | Some url \<Rightarrow>
          if url = [] then add_models source rest (self, models_added, models_skipped)
          else
            (let key = lower url in
             case seen_models self key of
               Some first_source \<Rightarrow>
                 add_models source rest (self, models_added, models_skipped + 1)
             | None \<Rightarrow>
                 add_models source rest
                   (self\<lparr>models := models self @ [model],
                         seen_models := (seen_models self)(key \<mapsto> source)\<rparr>,
                    models_added + 1, models_skipped)))"

text \<open>The second loop of \<open>add_manifest\<close>, over \<open>manifest.get('custom_nodes', [])\<close>.\<close>

fun add_nodes ::
  "string \<Rightarrow> entry list \<Rightarrow> model_manifest \<times> nat \<times> nat \<Rightarrow> model_manifest \<times> nat \<times> nat" where
  "add_nodes source [] (self, nodes_added, nodes_skipped) =
     (self, nodes_added, nodes_skipped)"
| "add_nodes source (node # rest) (self, nodes_added, nodes_skipped) =
     (case dict_get node ''repo'' of
        None \<Rightarrow> add_nodes source rest (self, nodes_added, nodes_skipped)
      | Some repo \<Rightarrow>
          if repo = [] then add_nodes source rest (self, nodes_added, nodes_skipped)
          else
            (let key = lower repo in
             case seen_nodes self key of
               Some first_source \<Rightarrow>
                 add_nodes source rest (self, nodes_added, nodes_skipped + 1)
             | None \<Rightarrow>
                 add_nodes source rest
                   (self\<lparr>custom_nodes := custom_nodes self @ [node],
                         seen_nodes := (seen_nodes self)(key \<mapsto> source)\<rparr>,
                    nodes_added + 1, nodes_skipped)))"

text \<open>
  \<open>add_manifest\<close> of the full variant: the result is
  \<open>(models_added, models_skipped, nodes_added, nodes_skipped)\<close> and the updated object.
  An empty dictionary is false in Python, hence the first test.
\<close>

definition add_manifest ::
  "manifest \<Rightarrow> string \<Rightarrow> model_manifest \<Rightarrow> (nat \<times> nat \<times> nat \<times> nat) \<times> model_manifest" where
  "add_manifest manifest source self =
     (if manifest = [] then ((0, 0, 0, 0), self)
      else
        (case add_models source (get_list manifest ''models'') (self, 0, 0) of
           (self1, models_added, models_skipped) \<Rightarrow>
             (case add_nodes source (get_list manifest ''custom_nodes'') (self1, 0, 0) of
                (self2, nodes_added, nodes_skipped) \<Rightarrow>
                  ((models_added, models_skipped, nodes_added, nodes_skipped), self2))))"

text \<open>
  \<open>add_manifest\<close> of the portable variant, which has no custom nodes: the result is
  \<open>(models_added, models_skipped)\<close>.
\<close>

definition add_manifest_portable ::
  "manifest \<Rightarrow> string \<Rightarrow> model_manifest \<Rightarrow> (nat \<times> nat) \<times> model_manifest" where
  "add_manifest_portable manifest source self =
     (if manifest = [] then ((0, 0), self)
      else
        (case add_models source (get_list manifest ''models'') (self, 0, 0) of
           (self1, models_added, models_skipped) \<Rightarrow> ((models_added, models_skipped), self1)))"

text \<open>
  \<open>load_manifests\<close>.  Reading a source (\<open>load_manifest\<close>: a file or an HTTP request, then
  JSON parsing) is a parameter \<open>load_manifest\<close> giving the parsed document, or \<open>None\<close>
  where the source catches an exception and returns \<open>None\<close>.  The accumulator carries
  the four totals that the summary prints.
\<close>

fun load_manifests_loop ::
  "(string \<Rightarrow> manifest option) \<Rightarrow> string list \<Rightarrow>
   model_manifest \<times> nat \<times> nat \<times> nat \<times> nat \<Rightarrow> model_manifest \<times> nat \<times> nat \<times> nat \<times> nat" where
  "load_manifests_loop load_manifest []
     (self, total_models, total_models_skipped, total_nodes, total_nodes_skipped) =
     (self, total_models, total_models_skipped, total_nodes, total_nodes_skipped)"
| "load_manifests_loop load_manifest (source # rest)
     (self, total_models, total_models_skipped, total_nodes, total_nodes_skipped) =
     (case load_manifest source of
        None \<Rightarrow>
          load_manifests_loop load_manifest rest
            (self, total_models, total_models_skipped, total_nodes, total_nodes_skipped)
      | Some manifest \<Rightarrow>
          if manifest = [] then
            load_manifests_loop load_manifest rest
              (self, total_models, total_models_skipped, total_nodes, total_nodes_skipped)
          else
            (case add_manifest manifest source self of
               ((m_added, m_skipped, n_added, n_skipped), self') \<Rightarrow>
                 load_manifests_loop load_manifest rest
                   (self', total_models + m_added, total_models_skipped + m_skipped,
                    total_nodes + n_added, total_nodes_skipped + n_skipped)))"

definition load_manifests ::
  "(string \<Rightarrow> manifest option) \<Rightarrow> string list \<Rightarrow> model_manifest \<Rightarrow>
   model_manifest \<times> nat \<times> nat \<times> nat \<times> nat" where
  "load_manifests load_manifest sources self =
     load_manifests_loop load_manifest sources (self, 0, 0, 0, 0)"

text \<open>\<open>get_combined_manifest\<close>: a dictionary that shares the two lists of the loader.\<close>

definition get_combined_manifest :: "model_manifest \<Rightarrow> manifest" where
  "get_combined_manifest self =
     [(''models'', models self), (''custom_nodes'', custom_nodes self)]"

text \<open>The same two functions in the portable variant, where only models are counted.\<close>

fun load_manifests_loop_portable ::
  "(string \<Rightarrow> manifest option) \<Rightarrow> string list \<Rightarrow>
   model_manifest \<times> nat \<times> nat \<Rightarrow> model_manifest \<times> nat \<times> nat" where
  "load_manifests_loop_portable load_manifest [] (self, total_models, total_models_skipped) =
     (self, total_models, total_models_skipped)"
| "load_manifests_loop_portable load_manifest (source # rest)
     (self, total_models, total_models_skipped) =
     (case load_manifest source of
        None \<Rightarrow>
          load_manifests_loop_portable load_manifest rest
            (self, total_models, total_models_skipped)
      | Some manifest \<Rightarrow>
          if manifest = [] then
            load_manifests_loop_portable load_manifest rest
              (self, total_models, total_models_skipped)
          else
            (case add_manifest_portable manifest source self of
               ((m_added, m_skipped), self') \<Rightarrow>
                 load_manifests_loop_portable load_manifest rest
                   (self', total_models + m_added, total_models_skipped + m_skipped)))"

definition load_manifests_portable ::
  "(string \<Rightarrow> manifest option) \<Rightarrow> string list \<Rightarrow> model_manifest \<Rightarrow>
   model_manifest \<times> nat \<times> nat" where
  "load_manifests_portable load_manifest sources self =
     load_manifests_loop_portable load_manifest sources (self, 0, 0)"

definition get_combined_manifest_portable :: "model_manifest \<Rightarrow> manifest" where
  "get_combined_manifest_portable self = [(''models'', models self)]"

section \<open>The world outside the program\<close>

text \<open>
  The file system is a map from paths to the bytes of the regular file stored there;
  directories of regular files are implicit, so \<open>mkdir(parents=True, exist_ok=True)\<close>
  leaves the map as it is.  \<open>dirs\<close> holds the directories that repository clones have
  created.  \<open>net_log\<close> records, in order, every invocation of a transport.
\<close>

datatype net_event = HttpGet string | Curl string | GitClone string

record world =
  files :: "string \<rightharpoonup> string"
  dirs :: "string set"
  net_log :: "net_event list"

text \<open>
  What a streaming HTTP download does to the destination file, as the code sees it:
  an exception before the file is opened (\<open>requests.get\<close>, \<open>raise_for_status\<close>, the
  \<open>content-length\<close> header, \<open>open\<close>), an exception after some bytes were written, or
  the whole body written.
\<close>

datatype http_result = HttpError | HttpBroken string | HttpDone string

text \<open>
  What a \<open>curl\<close> process does: exit status 0 with the body stored at the destination,
  or a failure that leaves a partial file (\<open>Some\<close>) or leaves the destination as it was.
\<close>

datatype curl_result = CurlDone string | CurlFailed "string option"

datatype py_error = ValueError | FileNotFoundError

text \<open>
  The environment: what the code reads from its host and from libraries.
  \<open>sha256_hexdigest\<close> is \<open>hashlib.sha256(bytes).hexdigest()\<close>; \<open>urlparse_path\<close> is
  \<open>urlparse(url).path\<close>, which raises \<open>ValueError\<close> on some malformed URLs (\<open>None\<close>);
  \<open>path_join a b c\<close> is \<open>Path(a) / b / c\<close>; \<open>git_clone\<close> is the exit status of
  \<open>os.system\<close>.  The transports may answer differently as the world changes.
\<close>

record env =
  comfyui_path :: string
  load_manifest :: "string \<Rightarrow> manifest option"
  sha256_hexdigest :: "string \<Rightarrow> string"
  urlparse_path :: "string \<Rightarrow> string option"
  path_join :: "string \<Rightarrow> string \<Rightarrow> string \<Rightarrow> string"
  requests_get :: "world \<Rightarrow> string \<Rightarrow> http_result"
  curl :: "world \<Rightarrow> string \<Rightarrow> string \<Rightarrow> curl_result"
  git_clone :: "world \<Rightarrow> string \<Rightarrow> string \<Rightarrow> int"
  has_curl :: bool
  has_requests :: bool

section \<open>The integrity verifier\<close>

text \<open>
  \<open>iter(lambda: f.read(4096), b"")\<close>: the blocks of at most 4096 bytes that the loop of
  \<open>verify_hash\<close> reads, up to the first empty read.
\<close>

function read_blocks :: "string \<Rightarrow> string list" where
  "read_blocks content =
     (let byte_block = take 4096 content in
      if byte_block = [] then [] else byte_block # read_blocks (drop 4096 content))"
  by pat_completeness auto
termination
  by (relation "measure length") auto

declare read_blocks.simps [simp del]

text \<open>
  The digest accumulator holds the bytes absorbed so far: \<open>update\<close> appends a block and
  \<open>hexdigest\<close> is the library's digest of what was absorbed.
\<close>

definition sha256_update :: "string \<Rightarrow> string \<Rightarrow> string" where
  "sha256_update byte_block absorbed = absorbed @ byte_block"

definition verify_hash :: "env \<Rightarrow> world \<Rightarrow> string \<Rightarrow> string \<Rightarrow> py_error + bool" where
  "verify_hash env w file_path expected_hash =
     (case files w file_path of
        None \<Rightarrow> Inl FileNotFoundError
      | Some content \<Rightarrow>
          Inr (sha256_hexdigest env (fold sha256_update (read_blocks content) []) =
               expected_hash))"

section \<open>The transfer executor\<close>

text \<open>
  \<open>if expected_hash:\<close> holds for a non-empty string only; \<open>supplied\<close> gives the digest
  in that case.
\<close>

definition supplied :: "string option \<Rightarrow> string option" where
  "supplied expected_hash =
     (case expected_hash of
        None \<Rightarrow> None
      | Some digest \<Rightarrow> if digest = [] then None else Some digest)"

text \<open>\<open>dest_path.unlink()\<close>, and the guarded form \<open>if dest_path.exists(): dest_path.unlink()\<close>.\<close>

definition unlink :: "string \<Rightarrow> world \<Rightarrow> world" where
  "unlink dest_path w = w\<lparr>files := (files w)(dest_path := None)\<rparr>"

subsection \<open>Full variant\<close>

text \<open>The handler \<open>except Exception\<close> of \<open>download_file\<close>.\<close>

definition on_exception :: "string \<Rightarrow> world \<Rightarrow> bool \<times> world" where
  "on_exception dest_path w = (False, unlink dest_path w)"

text \<open>
  The second half of \<open>download_file\<close>: the request, the streaming write through
  \<open>open(dest_path, 'wb')\<close>, and the verification of the new file.
\<close>

definition fetch :: "env \<Rightarrow> string \<Rightarrow> string \<Rightarrow> string option \<Rightarrow> world \<Rightarrow> bool \<times> world" where
  "fetch env url dest_path expected_hash w =
     (let w1 = w\<lparr>net_log := net_log w @ [HttpGet url]\<rparr> in
      case requests_get env w url of
        HttpError \<Rightarrow> on_exception dest_path w1
      | HttpBroken partial \<Rightarrow>
          on_exception dest_path (w1\<lparr>files := (files w1)(dest_path \<mapsto> partial)\<rparr>)
      | HttpDone body \<Rightarrow>
          (let w2 = w1\<lparr>files := (files w1)(dest_path \<mapsto> body)\<rparr> in
           case supplied expected_hash of
             None \<Rightarrow> (True, w2)
           | Some digest \<Rightarrow>
               (case verify_hash env w2 dest_path digest of
                  Inl err \<Rightarrow> on_exception dest_path w2
                | Inr ok \<Rightarrow> if \<not> ok then (False, unlink dest_path w2) else (True, w2))))"

definition download_file :: "env \<Rightarrow> string \<Rightarrow> string \<Rightarrow> string option \<Rightarrow> world \<Rightarrow> bool \<times> world" where
  "download_file env url dest_path expected_hash w =
     (case files w dest_path of
        Some existing \<Rightarrow>
          (case supplied expected_hash of
             Some digest \<Rightarrow>
               (case verify_hash env w dest_path digest of
                  Inl err \<Rightarrow> on_exception dest_path w
                | Inr ok \<Rightarrow>
                    if ok then (True, w) else fetch env url dest_path expected_hash w)
           | None \<Rightarrow> (True, w))
      | None \<Rightarrow> fetch env url dest_path expected_hash w)"

subsection \<open>Portable variant\<close>

text \<open>\<open>download_with_curl\<close> and \<open>download_with_requests\<close>: both catch every exception.\<close>

definition download_with_curl :: "env \<Rightarrow> string \<Rightarrow> string \<Rightarrow> world \<Rightarrow> bool \<times> world" where
  "download_with_curl env url dest_path w =
     (let w1 = w\<lparr>net_log := net_log w @ [Curl url]\<rparr> in
      case curl env w url dest_path of
        CurlDone body \<Rightarrow> (True, w1\<lparr>files := (files w1)(dest_path \<mapsto> body)\<rparr>)
      | CurlFailed None \<Rightarrow> (False, w1)
      | CurlFailed (Some partial) \<Rightarrow>
          (False, w1\<lparr>files := (files w1)(dest_path \<mapsto> partial)\<rparr>))"

definition download_with_requests :: "env \<Rightarrow> string \<Rightarrow> string \<Rightarrow> world \<Rightarrow> bool \<times> world" where
  "download_with_requests env url dest_path w =
     (let w1 = w\<lparr>net_log := net_log w @ [HttpGet url]\<rparr> in
      case requests_get env w url of
        HttpError \<Rightarrow> (False, w1)
      | HttpBroken partial \<Rightarrow> (False, w1\<lparr>files := (files w1)(dest_path \<mapsto> partial)\<rparr>)
      | HttpDone body \<Rightarrow> (True, w1\<lparr>files := (files w1)(dest_path \<mapsto> body)\<rparr>))"

text \<open>
  The end of the portable \<open>download_file\<close>, after the transport has returned
  \<open>success\<close>.  Nothing catches an exception here, so an error of \<open>verify_hash\<close> leaves
  the function.
\<close>

definition check_download ::
  "env \<Rightarrow> string \<Rightarrow> string option \<Rightarrow> bool \<times> world \<Rightarrow> py_error + bool \<times> world" where
  "check_download env dest_path expected_hash r =
     (case r of
        (success, w1) \<Rightarrow>
          if \<not> success then Inr (False, unlink dest_path w1)
          else
            (case supplied expected_hash of
               None \<Rightarrow> Inr (True, w1)
             | Some digest \<Rightarrow>
                 (case verify_hash env w1 dest_path digest of
                    Inl err \<Rightarrow> Inl err
                  | Inr ok \<Rightarrow>
                      if \<not> ok then Inr (False, unlink dest_path w1) else Inr (True, w1))))"

text \<open>The choice of the transport: \<open>curl\<close> first, then \<open>requests\<close>, else give up.\<close>

definition fetch_portable ::
  "env \<Rightarrow> string \<Rightarrow> string \<Rightarrow> string option \<Rightarrow> world \<Rightarrow> py_error + bool \<times> world" where
  "fetch_portable env url dest_path expected_hash w =
     (if has_curl env then
        check_download env dest_path expected_hash (download_with_curl env url dest_path w)
      else if has_requests env then
        check_download env dest_path expected_hash (download_with_requests env url dest_path w)
      else Inr (False, w))"

definition download_file_portable ::
  "env \<Rightarrow> string \<Rightarrow> string \<Rightarrow> string option \<Rightarrow> world \<Rightarrow> py_error + bool \<times> world" where
  "download_file_portable env url dest_path expected_hash w =
     (case files w dest_path of
        Some existing \<Rightarrow>
          (case supplied expected_hash of
             Some digest \<Rightarrow>
               (case verify_hash env w dest_path digest of
                  Inl err \<Rightarrow> Inl err
                | Inr ok \<Rightarrow>
                    if ok then Inr (True, w)
                    else fetch_portable env url dest_path expected_hash (unlink dest_path w))
           | None \<Rightarrow> Inr (True, w))
      | None \<Rightarrow> fetch_portable env url dest_path expected_hash w)"

subsection \<open>Repository acquisition\<close>

definition clone_repo :: "env \<Rightarrow> string \<Rightarrow> string \<Rightarrow> world \<Rightarrow> bool \<times> world" where
  "clone_repo env repo_url dest_path w =
     (if dest_path \<in> dirs w \<or> files w dest_path \<noteq> None then (True, w)
      else
        (let w1 = w\<lparr>net_log := net_log w @ [GitClone repo_url]\<rparr> in
         if git_clone env w repo_url dest_path = 0
         then (True, w1\<lparr>dirs := insert dest_path (dirs w1)\<rparr>)
         else (False, w1)))"

section \<open>The plan runner\<close>

text \<open>\<open>d.get(k, default)\<close>\<close>

definition get_or :: "entry \<Rightarrow> string \<Rightarrow> string \<Rightarrow> string" where
  "get_or d k fallback = (case dict_get d k of None \<Rightarrow> fallback | Some v \<Rightarrow> v)"

text \<open>\<open>os.path.basename\<close>: what follows the last slash.  \<open>s.replace(a, b)\<close> on characters.\<close>

definition basename :: "string \<Rightarrow> string" where
  "basename p = rev (takeWhile (\<lambda>c. c \<noteq> CHR ''/'') (rev p))"

definition replace_char :: "char \<Rightarrow> char \<Rightarrow> string \<Rightarrow> string" where
  "replace_char a b s = map (\<lambda>c. if c = a then b else c) s"

text \<open>
  The list that \<open>download_models\<close> iterates:
  \<open>[m for m in models if m.get('type') in types_filter]\<close> when \<open>types_filter\<close> is a
  non-empty list, all models otherwise.
\<close>

definition select_models :: "manifest \<Rightarrow> string list option \<Rightarrow> entry list" where
  "select_models manifest types_filter =
     (let models = get_list manifest ''models'' in
      case types_filter of
        None \<Rightarrow> models
      | Some ts \<Rightarrow>
          if ts = [] then models
          else filter (\<lambda>m. case dict_get m ''type'' of None \<Rightarrow> False | Some t \<Rightarrow> t \<in> set ts)
                 models)"

text \<open>
  The file name of a model: the \<open>filename\<close> attribute, else the last segment of the
  URL's path, else the model's name with \<open>.safetensors\<close>.
\<close>

definition model_filename :: "env \<Rightarrow> entry \<Rightarrow> string \<Rightarrow> py_error + string" where
  "model_filename env model url =
     (let name = get_or model ''name'' ''Unknown'' in
      case (if truthy (dict_get model ''filename'')
            then Inr (get_or model ''filename'' [])
            else (case urlparse_path env url of
                    None \<Rightarrow> Inl ValueError
                  | Some p \<Rightarrow> Inr (basename p))) of
        Inl err \<Rightarrow> Inl err
      | Inr filename \<Rightarrow>
          Inr (if filename = [] then replace_char CHR '' '' CHR ''_'' name @ ''.safetensors''
               else filename))"

text \<open>
  The loop of \<open>download_models\<close>.  \<open>dl\<close> is the variant's \<open>download_file\<close>.  An exception
  that nothing catches (\<open>Inl\<close>) ends the loop and the program.
\<close>

type_synonym downloader =
  "env \<Rightarrow> string \<Rightarrow> string \<Rightarrow> string option \<Rightarrow> world \<Rightarrow> py_error + bool \<times> world"

fun download_loop ::
  "downloader \<Rightarrow> env \<Rightarrow> bool \<Rightarrow> entry list \<Rightarrow> nat \<times> nat \<times> world \<Rightarrow>
   py_error + nat \<times> nat \<times> world" where
  "download_loop dl env dry_run [] (success_count, fail_count, w) =
     Inr (success_count, fail_count, w)"
| "download_loop dl env dry_run (model # rest) (success_count, fail_count, w) =
     (let url = dict_get model ''url'';
          rel_path = get_or model ''path'' ''models/checkpoints'';
          expected_hash = dict_get model ''sha256''
      in
      case url of
        None \<Rightarrow> download_loop dl env dry_run rest (success_count, fail_count + 1, w)
      | Some u \<Rightarrow>
          if u = [] then download_loop dl env dry_run rest (success_count, fail_count + 1, w)
          else if dry_run then
            download_loop dl env dry_run rest (success_count + 1, fail_count, w)
          else
            (case model_filename env model u of
               Inl err \<Rightarrow> Inl err
             | Inr filename \<Rightarrow>
                 (let dest_path = path_join env (comfyui_path env) rel_path filename in
                  case dl env u dest_path expected_hash w of
                    Inl err \<Rightarrow> Inl err
                  | Inr (True, w') \<Rightarrow>
                      download_loop dl env dry_run rest (success_count + 1, fail_count, w')
                  | Inr (False, w') \<Rightarrow>
                      download_loop dl env dry_run rest (success_count, fail_count + 1, w'))))"

definition download_models ::
  "downloader \<Rightarrow> env \<Rightarrow> manifest \<Rightarrow> string list option \<Rightarrow> bool \<Rightarrow> world \<Rightarrow>
   py_error + nat \<times> nat \<times> world" where
  "download_models dl env manifest types_filter dry_run w =
     (let models = select_models manifest types_filter in
      if models = [] then Inr (0, 0, w)
      else download_loop dl env dry_run models (0, 0, w))"

text \<open>The two variants' \<open>download_file\<close> as downloaders.\<close>

definition dl_full :: downloader where
  "dl_full env url dest_path expected_hash w = Inr (download_file env url dest_path expected_hash w)"

definition dl_portable :: downloader where
  "dl_portable = download_file_portable"

text \<open>\<open>install_custom_nodes\<close> of the full variant; \<open>clone_repo\<close> catches every exception.\<close>

fun install_loop :: "env \<Rightarrow> bool \<Rightarrow> entry list \<Rightarrow> nat \<times> nat \<times> world \<Rightarrow> nat \<times> nat \<times> world" where
  "install_loop env dry_run [] (success_count, fail_count, w) = (success_count, fail_count, w)"
| "install_loop env dry_run (node # rest) (success_count, fail_count, w) =
     (let name = get_or node ''name'' ''Unknown'';
          repo = dict_get node ''repo'';
          rel_path = get_or node ''path'' ''custom_nodes''
      in
      case repo of
        None \<Rightarrow> install_loop env dry_run rest (success_count, fail_count + 1, w)
      | Some r \<Rightarrow>
          if r = [] then install_loop env dry_run rest (success_count, fail_count + 1, w)
          else if dry_run then install_loop env dry_run rest (success_count + 1, fail_count, w)
          else
            (let dir_name = replace_char CHR ''/'' CHR ''-'' (replace_char CHR '' '' CHR ''-'' name);
                 dest_path = path_join env (comfyui_path env) rel_path dir_name
             in
             case clone_repo env r dest_path w of
               (True, w') \<Rightarrow> install_loop env dry_run rest (success_count + 1, fail_count, w')
             | (False, w') \<Rightarrow> install_loop env dry_run rest (success_count, fail_count + 1, w')))"

definition install_custom_nodes :: "env \<Rightarrow> manifest \<Rightarrow> bool \<Rightarrow> world \<Rightarrow> nat \<times> nat \<times> world" where
  "install_custom_nodes env manifest dry_run w =
     (let nodes = get_list manifest ''custom_nodes'' in
      if nodes = [] then (0, 0, w) else install_loop env dry_run nodes (0, 0, w))"

section \<open>The program\<close>

text \<open>The parsed command line.\<close>

record args =
  manifests :: "string list"
  types :: "string list option"
  models_only :: bool
  nodes_only :: bool
  list_only :: bool
  dry_run :: bool

text \<open>
  What a run leaves behind: the exit code of the process, the two totals of the final
  summary, the loader with the merged plan, and the world.
\<close>

record run =
  exit_code :: int
  total_success :: nat
  total_fail :: nat
  loader :: model_manifest
  after :: world

text \<open>
  \<open>main\<close> of the full variant.  \<open>parser.error\<close> exits with code 2 before anything is
  loaded; \<open>--list\<close> returns after printing, which is exit code 0; an exception that
  nothing catches (\<open>Inl\<close>) ends the process with a traceback.
\<close>

definition main :: "env \<Rightarrow> args \<Rightarrow> world \<Rightarrow> py_error + run" where
  "main env a w =
     (if models_only a \<and> nodes_only a then
        Inr \<lparr>exit_code = 2, total_success = 0, total_fail = 0, loader = init_manifest, after = w\<rparr>
      else
        (case load_manifests (load_manifest env) (manifests a) init_manifest of
           (manifest_loader, totals) \<Rightarrow>
             (let combined_manifest = get_combined_manifest manifest_loader in
              if list_only a then
                Inr \<lparr>exit_code = 0, total_success = 0, total_fail = 0,
                     loader = manifest_loader, after = w\<rparr>
              else
                (case (if \<not> nodes_only a
                       then download_models dl_full env combined_manifest (types a) (dry_run a) w
                       else Inr (0, 0, w)) of
                   Inl err \<Rightarrow> Inl err
                 | Inr (success1, fail1, w1) \<Rightarrow>
                     (case (if \<not> models_only a
                            then install_custom_nodes env combined_manifest (dry_run a) w1
                            else (0, 0, w1)) of
                        (success2, fail2, w2) \<Rightarrow>
                          Inr \<lparr>exit_code = (if fail1 + fail2 = 0 then 0 else 1),
                               total_success = success1 + success2,
                               total_fail = fail1 + fail2,
                               loader = manifest_loader, after = w2\<rparr>)))))"

text \<open>\<open>main\<close> of the portable variant, which ignores the two flags for custom nodes.\<close>

definition main_portable :: "env \<Rightarrow> args \<Rightarrow> world \<Rightarrow> py_error + run" where
  "main_portable env a w =
     (case load_manifests_portable (load_manifest env) (manifests a) init_manifest of
        (manifest_loader, totals) \<Rightarrow>
          (let combined_manifest = get_combined_manifest_portable manifest_loader in
           if list_only a then
             Inr \<lparr>exit_code = 0, total_success = 0, total_fail = 0,
                  loader = manifest_loader, after = w\<rparr>
           else
             (case download_models dl_portable env combined_manifest (types a) (dry_run a) w of
                Inl err \<Rightarrow> Inl err
              | Inr (success1, fail1, w1) \<Rightarrow>
                  Inr \<lparr>exit_code = (if fail1 = 0 then 0 else 1),
                       total_success = success1, total_fail = fail1,
                       loader = manifest_loader, after = w1\<rparr>)))"

section \<open>Notions used to state the properties\<close>

text \<open>
  The uniqueness key of an entry, as \<open>add_manifest\<close> computes it: the lowercased \<open>url\<close>
  of a model, the lowercased \<open>repo\<close> of a node, and no key when the attribute is
  missing or empty.
\<close>

definition model_key :: "entry \<Rightarrow> string option" where
  "model_key model =
     (case dict_get model ''url'' of
        None \<Rightarrow> None
      | Some url \<Rightarrow> if url = [] then None else Some (lower url))"

definition node_key :: "entry \<Rightarrow> string option" where
  "node_key node =
     (case dict_get node ''repo'' of
        None \<Rightarrow> None
      | Some repo \<Rightarrow> if repo = [] then None else Some (lower repo))"

text \<open>The entries that have a key.\<close>

definition keyed :: "(entry \<Rightarrow> string option) \<Rightarrow> entry list \<Rightarrow> entry list" where
  "keyed key es = filter (\<lambda>e. key e \<noteq> None) es"

text \<open>
  First-seen-wins deduplication as the specification words it: going through the
  entries in order, an entry without a key is dropped, an entry whose key was seen is
  discarded, and any other entry is kept and its key becomes seen.
\<close>

fun first_seen :: "(entry \<Rightarrow> string option) \<Rightarrow> string set \<Rightarrow> entry list \<Rightarrow> entry list" where
  "first_seen key seen [] = []"
| "first_seen key seen (e # es) =
     (case key e of
        None \<Rightarrow> first_seen key seen es
      | Some k \<Rightarrow>
          if k \<in> seen then first_seen key seen es
          else e # first_seen key (insert k seen) es)"

text \<open>
  The documents that \<open>load_manifests\<close> merges: those of the sources that load, in the
  order of the sources.  A source that loads as an empty object counts as failed, as in
  the code.
\<close>

definition loaded :: "(string \<Rightarrow> manifest option) \<Rightarrow> string list \<Rightarrow> (string \<times> manifest) list" where
  "loaded load sources =
     concat (map (\<lambda>source. case load source of
                              None \<Rightarrow> []
                            | Some m \<Rightarrow> if m = [] then [] else [(source, m)]) sources)"

text \<open>All model entries, and all node entries, of the loaded documents in arrival order.\<close>

definition arriving_models :: "(string \<Rightarrow> manifest option) \<Rightarrow> string list \<Rightarrow> entry list" where
  "arriving_models load sources =
     concat (map (\<lambda>(source, m). get_list m ''models'') (loaded load sources))"

definition arriving_nodes :: "(string \<Rightarrow> manifest option) \<Rightarrow> string list \<Rightarrow> entry list" where
  "arriving_nodes load sources =
     concat (map (\<lambda>(source, m). get_list m ''custom_nodes'') (loaded load sources))"

text \<open>An entry of the runner has a source when its \<open>url\<close> is a non-empty string.\<close>

definition has_url :: "entry \<Rightarrow> bool" where
  "has_url model = truthy (dict_get model ''url'')"

text \<open>
  What the transport of a variant delivers when it is invoked in world \<open>w\<close>: the body
  when it reports success, \<open>None\<close> when it fails (an exception of \<open>requests\<close>, a non-zero
  exit of \<open>curl\<close>) or, in the portable variant, when no transport is installed.
\<close>

definition served :: "env \<Rightarrow> world \<Rightarrow> string \<Rightarrow> string option" where
  "served env w url =
     (case requests_get env w url of HttpDone body \<Rightarrow> Some body | _ \<Rightarrow> None)"

definition served_portable :: "env \<Rightarrow> world \<Rightarrow> string \<Rightarrow> string \<Rightarrow> string option" where
  "served_portable env w url dest_path =
     (if has_curl env then
        (case curl env w url dest_path of CurlDone body \<Rightarrow> Some body | _ \<Rightarrow> None)
      else if has_requests env then served env w url
      else None)"

text \<open>The event that the transport of the portable variant logs, if there is one.\<close>

definition portable_event :: "env \<Rightarrow> string \<Rightarrow> net_event list" where
  "portable_event env url =
     (if has_curl env then [Curl url] else if has_requests env then [HttpGet url] else [])"

text \<open>A node of the runner has a source when its \<open>repo\<close> is a non-empty string.\<close>

definition has_repo :: "entry \<Rightarrow> bool" where
  "has_repo node = truthy (dict_get node ''repo'')"

text \<open>A manifest without its model entries that lack a \<open>url\<close>.\<close>

definition strip_models :: "manifest \<Rightarrow> manifest" where
  "strip_models m = map (\<lambda>(k, es). if k = ''models'' then (k, filter has_url es) else (k, es)) m"

text \<open>A result of the runner's loop with \<open>n\<close> more failures counted.\<close>

definition add_failures ::
  "nat \<Rightarrow> py_error + nat \<times> nat \<times> world \<Rightarrow> py_error + nat \<times> nat \<times> world" where
  "add_failures n r = (case r of Inl err \<Rightarrow> Inl err | Inr (s, f, w) \<Rightarrow> Inr (s, f + n, w))"

section \<open>Sample inputs\<close>

text \<open>
  Two manifests that declare the same model under URLs that differ only in case, and
  the loader that finds them under \<open>a.json\<close> and \<open>b.json\<close>.
\<close>

definition sample_upper :: entry where
  "sample_upper = [(''name'', ''Base''), (''url'', ''HTTPS://Host.org/Base.BIN'')]"

definition sample_lower :: entry where
  "sample_lower = [(''name'', ''base again''), (''url'', ''https://host.org/base.bin'')]"

definition sample_load :: "string \<Rightarrow> manifest option" where
  "sample_load source =
     (if source = ''a.json'' then Some [(''models'', [sample_upper])]
      else if source = ''b.json'' then Some [(''models'', [sample_lower])]
      else None)"

text \<open>
  An environment for the examples.  Its digest is a stand-in for SHA-256 with two
  values; its server delivers one file whole, breaks off a second one and refuses
  everything else; \<open>curl\<close> always fails after writing two bytes.
\<close>

definition sample_digest :: "string \<Rightarrow> string" where
  "sample_digest content = (if content = ''good bytes'' then ''0a1b'' else ''ffff'')"

definition sample_get :: "world \<Rightarrow> string \<Rightarrow> http_result" where
  "sample_get w url =
     (if url = ''https://host.org/good.bin'' then HttpDone ''good bytes''
      else if url = ''https://host.org/cut.bin'' then HttpBroken ''go''
      else HttpError)"

definition sample_curl :: "world \<Rightarrow> string \<Rightarrow> string \<Rightarrow> curl_result" where
  "sample_curl w url dest_path = CurlFailed (Some ''pa'')"

definition sample_git :: "world \<Rightarrow> string \<Rightarrow> string \<Rightarrow> int" where
  "sample_git w repo_url dest_path = 0"

definition sample_join :: "string \<Rightarrow> string \<Rightarrow> string \<Rightarrow> string" where
  "sample_join a b c = a @ ''/'' @ b @ ''/'' @ c"

definition sample_urlpath :: "string \<Rightarrow> string option" where
  "sample_urlpath url = Some (drop 16 url)"

definition sample_env :: env where
  "sample_env =
     \<lparr>comfyui_path = ''/app/ComfyUI'', load_manifest = sample_load,
      sha256_hexdigest = sample_digest, urlparse_path = sample_urlpath,
      path_join = sample_join, requests_get = sample_get, curl = sample_curl,
      git_clone = sample_git, has_curl = False, has_requests = True\<rparr>"

definition empty_world :: world where
  "empty_world = \<lparr>files = Map.empty, dirs = {}, net_log = []\<rparr>"

text \<open>A command line whose two sources both fail to load under \<open>sample_load\<close>.\<close>

definition sample_args_unreachable :: args where
  "sample_args_unreachable =
     \<lparr>manifests = [''missing.json'', ''https://down.example/m.json''], types = None,
      models_only = False, nodes_only = False, list_only = False, dry_run = False\<rparr>"

text \<open>
  A destination path, a world where it holds the bytes that the sample digest maps to
  \<open>0a1b\<close>, and a world where it holds other bytes.
\<close>

definition sample_dest :: string where
  "sample_dest = ''/app/ComfyUI/models/checkpoints/good.bin''"

definition world_good :: world where
  "world_good = \<lparr>files = [sample_dest \<mapsto> ''good bytes''], dirs = {}, net_log = []\<rparr>"

definition world_stale :: world where
  "world_stale = \<lparr>files = [sample_dest \<mapsto> ''old bytes''], dirs = {}, net_log = []\<rparr>"

text \<open>A host that has neither \<open>curl\<close> nor \<open>requests\<close>, and the URL of the good file.\<close>

definition offline_env :: env where
  "offline_env = sample_env\<lparr>has_requests := False\<rparr>"

definition good_url :: string where
  "good_url = ''https://host.org/good.bin''"

text \<open>
  A combined manifest with a checkpoint and a LoRA, a manifest whose first model has no
  \<open>url\<close>, and a dry run over that manifest.
\<close>

definition sample_checkpoint :: entry where
  "sample_checkpoint =
     [(''name'', ''Base''), (''url'', ''https://host.org/good.bin''), (''type'', ''checkpoint'')]"

definition sample_lora :: entry where
  "sample_lora =
     [(''name'', ''Style''), (''url'', ''https://host.org/cut.bin''), (''type'', ''lora'')]"

definition sample_plan :: manifest where
  "sample_plan = [(''models'', [sample_checkpoint, sample_lora]), (''custom_nodes'', [])]"

definition sample_no_url :: entry where
  "sample_no_url = [(''name'', ''No Link''), (''type'', ''checkpoint'')]"

definition sample_load_no_url :: "string \<Rightarrow> manifest option" where
  "sample_load_no_url source =
     (if source = ''c.json'' then Some [(''models'', [sample_no_url, sample_checkpoint])]
      else None)"

definition no_url_env :: env where
  "no_url_env = sample_env\<lparr>load_manifest := sample_load_no_url\<rparr>"

definition sample_args_dry :: args where
  "sample_args_dry =
     \<lparr>manifests = [''c.json''], types = None, models_only = False, nodes_only = False,
      list_only = False, dry_run = True\<rparr>"

text \<open>The same command line as a real run.\<close>

definition sample_args_real :: args where
  "sample_args_real = sample_args_dry\<lparr>dry_run := False\<rparr>"

section \<open>The merge loops refine first-seen-wins deduplication\<close>

lemma keyed_Cons:
  "keyed key (e # es) = (if key e = None then keyed key es else e # keyed key es)"
  by (simp add: keyed_def)

lemma keyed_append: "keyed key (xs @ ys) = keyed key xs @ keyed key ys"
  by (simp add: keyed_def)

lemma model_key_None: "model_key e = None \<longleftrightarrow> \<not> truthy (dict_get e ''url'')"
  by (simp add: model_key_def truthy_def split: option.splits)

lemma node_key_None: "node_key e = None \<longleftrightarrow> \<not> truthy (dict_get e ''repo'')"
  by (simp add: node_key_def truthy_def split: option.splits)

lemma add_models_skip:
  "model_key e = None \<Longrightarrow>
   add_models source (e # es) (self, a, k) = add_models source es (self, a, k)"
  by (auto simp: model_key_def split: option.splits if_splits)

lemma add_models_duplicate:
  "model_key e = Some key \<Longrightarrow> seen_models self key = Some src \<Longrightarrow>
   add_models source (e # es) (self, a, k) = add_models source es (self, a, k + 1)"
  by (auto simp: model_key_def split: option.splits if_splits)

lemma add_models_new:
  "model_key e = Some key \<Longrightarrow> seen_models self key = None \<Longrightarrow>
   add_models source (e # es) (self, a, k) =
   add_models source es
     (self\<lparr>models := models self @ [e], seen_models := (seen_models self)(key \<mapsto> source)\<rparr>,
      a + 1, k)"
  by (auto simp: model_key_def split: option.splits if_splits)

lemma add_nodes_skip:
  "node_key e = None \<Longrightarrow>
   add_nodes source (e # es) (self, a, k) = add_nodes source es (self, a, k)"
  by (auto simp: node_key_def split: option.splits if_splits)

lemma add_nodes_duplicate:
  "node_key e = Some key \<Longrightarrow> seen_nodes self key = Some src \<Longrightarrow>
   add_nodes source (e # es) (self, a, k) = add_nodes source es (self, a, k + 1)"
  by (auto simp: node_key_def split: option.splits if_splits)

lemma add_nodes_new:
  "node_key e = Some key \<Longrightarrow> seen_nodes self key = None \<Longrightarrow>
   add_nodes source (e # es) (self, a, k) =
   add_nodes source es
     (self\<lparr>custom_nodes := custom_nodes self @ [e],
           seen_nodes := (seen_nodes self)(key \<mapsto> source)\<rparr>,
      a + 1, k)"
  by (auto simp: node_key_def split: option.splits if_splits)

lemma add_models_append:
  "add_models source (xs @ ys) acc = add_models source ys (add_models source xs acc)"
proof (induction xs arbitrary: acc)
  case Nil
  show ?case by (cases acc) simp
next
  case (Cons e xs)
  obtain self a k where acc: "acc = (self, a, k)" by (cases acc)
  show ?case
  proof (cases "model_key e")
    case None
    then show ?thesis using Cons.IH acc by (simp add: add_models_skip del: add_models.simps)
  next
    case (Some key)
    then show ?thesis using Cons.IH acc
      by (cases "seen_models self key")
         (simp_all add: add_models_new add_models_duplicate del: add_models.simps)
  qed
qed

lemma add_nodes_append:
  "add_nodes source (xs @ ys) acc = add_nodes source ys (add_nodes source xs acc)"
proof (induction xs arbitrary: acc)
  case Nil
  show ?case by (cases acc) simp
next
  case (Cons e xs)
  obtain self a k where acc: "acc = (self, a, k)" by (cases acc)
  show ?case
  proof (cases "node_key e")
    case None
    then show ?thesis using Cons.IH acc by (simp add: add_nodes_skip del: add_nodes.simps)
  next
    case (Some key)
    then show ?thesis using Cons.IH acc
      by (cases "seen_nodes self key")
         (simp_all add: add_nodes_new add_nodes_duplicate del: add_nodes.simps)
  qed
qed

lemma add_models_result:
  "dom (seen_models self) = S \<Longrightarrow>
   (case add_models source es (self, a, k) of
      (self', a', k') \<Rightarrow>
        models self' = models self @ first_seen model_key S es \<and>
        a' = a + length (first_seen model_key S es) \<and>
        a' + k' = a + k + length (keyed model_key es) \<and>
        custom_nodes self' = custom_nodes self \<and>
        seen_nodes self' = seen_nodes self \<and>
        (\<forall>key. seen_models self' key =
           (case seen_models self key of
              Some src \<Rightarrow> Some src
            | None \<Rightarrow> if Some key \<in> model_key ` set es then Some source else None)))"
proof (induction es arbitrary: self a k S)
  case Nil
  then show ?case by (simp add: keyed_def split: option.splits)
next
  case (Cons e es)
  show ?case
  proof (cases "model_key e")
    case None
    show ?thesis
      unfolding add_models_skip [OF None] using Cons.IH [OF Cons.prems, of a k] None
      by (auto simp: keyed_Cons split: prod.splits option.splits)
  next
    case (Some key)
    show ?thesis
    proof (cases "seen_models self key")
      case None
      let ?self = "self\<lparr>models := models self @ [e],
                         seen_models := (seen_models self)(key \<mapsto> source)\<rparr>"
      from None Cons.prems have notin: "key \<notin> S" by (auto simp: domIff)
      have d: "dom (seen_models ?self) = insert key S"
        using Cons.prems by simp
      show ?thesis
        unfolding add_models_new [OF Some None]
        using Cons.IH [OF d, of "a + 1" k] Some notin None
        by (auto simp: keyed_Cons split: prod.splits option.splits)
    next
      case (Some src)
      from Some Cons.prems have isin: "key \<in> S" by (auto simp: domIff)
      show ?thesis
        unfolding add_models_duplicate [OF \<open>model_key e = Some key\<close> Some]
        using Cons.IH [OF Cons.prems, of a "k + 1"] \<open>model_key e = Some key\<close> isin Some
        by (auto simp: keyed_Cons split: prod.splits option.splits)
    qed
  qed
qed

lemma add_nodes_result:
  "dom (seen_nodes self) = S \<Longrightarrow>
   (case add_nodes source es (self, a, k) of
      (self', a', k') \<Rightarrow>
        custom_nodes self' = custom_nodes self @ first_seen node_key S es \<and>
        a' = a + length (first_seen node_key S es) \<and>
        a' + k' = a + k + length (keyed node_key es) \<and>
        models self' = models self \<and>
        seen_models self' = seen_models self \<and>
        (\<forall>key. seen_nodes self' key =
           (case seen_nodes self key of
              Some src \<Rightarrow> Some src
            | None \<Rightarrow> if Some key \<in> node_key ` set es then Some source else None)))"
proof (induction es arbitrary: self a k S)
  case Nil
  then show ?case by (simp add: keyed_def split: option.splits)
next
  case (Cons e es)
  show ?case
  proof (cases "node_key e")
    case None
    show ?thesis
      unfolding add_nodes_skip [OF None] using Cons.IH [OF Cons.prems, of a k] None
      by (auto simp: keyed_Cons split: prod.splits option.splits)
  next
    case (Some key)
    show ?thesis
    proof (cases "seen_nodes self key")
      case None
      let ?self = "self\<lparr>custom_nodes := custom_nodes self @ [e],
                         seen_nodes := (seen_nodes self)(key \<mapsto> source)\<rparr>"
      from None Cons.prems have notin: "key \<notin> S" by (auto simp: domIff)
      have d: "dom (seen_nodes ?self) = insert key S"
        using Cons.prems by simp
      show ?thesis
        unfolding add_nodes_new [OF Some None]
        using Cons.IH [OF d, of "a + 1" k] Some notin None
        by (auto simp: keyed_Cons split: prod.splits option.splits)
    next
      case (Some src)
      from Some Cons.prems have isin: "key \<in> S" by (auto simp: domIff)
      show ?thesis
        unfolding add_nodes_duplicate [OF \<open>node_key e = Some key\<close> Some]
        using Cons.IH [OF Cons.prems, of a "k + 1"] \<open>node_key e = Some key\<close> isin Some
        by (auto simp: keyed_Cons split: prod.splits option.splits)
    qed
  qed
qed

section \<open>Entries without a uniqueness key\<close>

lemma add_models_drop:
  "model_key e = None \<Longrightarrow>
   add_models source (xs @ e # ys) acc = add_models source (xs @ ys) acc"
proof -
  assume none: "model_key e = None"
  obtain self a k where mid: "add_models source xs acc = (self, a, k)"
    by (cases "add_models source xs acc")
  have "add_models source (xs @ e # ys) acc = add_models source (e # ys) (self, a, k)"
    by (simp add: add_models_append mid del: add_models.simps)
  also have "\<dots> = add_models source ys (self, a, k)"
    by (rule add_models_skip [OF none])
  also have "\<dots> = add_models source (xs @ ys) acc"
    by (simp add: add_models_append mid del: add_models.simps)
  finally show ?thesis .
qed

lemma add_nodes_drop:
  "node_key e = None \<Longrightarrow>
   add_nodes source (xs @ e # ys) acc = add_nodes source (xs @ ys) acc"
proof -
  assume none: "node_key e = None"
  obtain self a k where mid: "add_nodes source xs acc = (self, a, k)"
    by (cases "add_nodes source xs acc")
  have "add_nodes source (xs @ e # ys) acc = add_nodes source (e # ys) (self, a, k)"
    by (simp add: add_nodes_append mid del: add_nodes.simps)
  also have "\<dots> = add_nodes source ys (self, a, k)"
    by (rule add_nodes_skip [OF none])
  also have "\<dots> = add_nodes source (xs @ ys) acc"
    by (simp add: add_nodes_append mid del: add_nodes.simps)
  finally show ?thesis .
qed

text \<open>
  C7.  During the merge an entry without its uniqueness key (a model whose \<open>url\<close> is
  missing or empty, a node whose \<open>repo\<close> is missing or empty) is dropped silently:
  processing it alone leaves the loader, hence the length of the plan, and both
  counters as they were, and wherever it stands in a manifest the merge gives the
  result it gives without the entry.
\<close>

theorem missing_key_silently_dropped:
  "(\<not> truthy (dict_get e ''url'') \<longrightarrow>
      add_models source [e] (self, added, skipped) = (self, added, skipped) \<and>
      add_models source (xs @ e # ys) (self, added, skipped) =
        add_models source (xs @ ys) (self, added, skipped)) \<and>
   (\<not> truthy (dict_get e ''repo'') \<longrightarrow>
      add_nodes source [e] (self, added, skipped) = (self, added, skipped) \<and>
      add_nodes source (xs @ e # ys) (self, added, skipped) =
        add_nodes source (xs @ ys) (self, added, skipped))"
proof (intro conjI impI)
  assume "\<not> truthy (dict_get e ''url'')"
  then have none: "model_key e = None" by (simp add: model_key_None)
  show "add_models source [e] (self, added, skipped) = (self, added, skipped)"
    by (simp add: add_models_skip [OF none] del: add_models.simps(2))
  show "add_models source (xs @ e # ys) (self, added, skipped) =
        add_models source (xs @ ys) (self, added, skipped)"
    by (rule add_models_drop [OF none])
next
  assume "\<not> truthy (dict_get e ''repo'')"
  then have none: "node_key e = None" by (simp add: node_key_None)
  show "add_nodes source [e] (self, added, skipped) = (self, added, skipped)"
    by (simp add: add_nodes_skip [OF none] del: add_nodes.simps(2))
  show "add_nodes source (xs @ e # ys) (self, added, skipped) =
        add_nodes source (xs @ ys) (self, added, skipped)"
    by (rule add_nodes_drop [OF none])
qed

theorem missing_key_silently_dropped_witness:
  "add_models ''a.json'' [[(''name'', ''No Link''), (''url'', '''')]] (init_manifest, 0, 0) =
     (init_manifest, 0, 0) \<and>
   add_nodes ''a.json'' [[(''name'', ''No Repo'')]] (init_manifest, 0, 0) =
     (init_manifest, 0, 0)"
  using missing_key_silently_dropped
          [of "[(''name'', ''No Link''), (''url'', '''')]" "''a.json''" init_manifest 0 0 "[]" "[]"]
        missing_key_silently_dropped
          [of "[(''name'', ''No Repo'')]" "''a.json''" init_manifest 0 0 "[]" "[]"]
  by (simp add: truthy_def dict_get_def)

section \<open>Properties of first-seen-wins deduplication\<close>

lemma first_seen_keys:
  "Some k \<in> key ` set (first_seen key S es) \<longleftrightarrow> Some k \<in> key ` set es \<and> k \<notin> S"
proof (induction es arbitrary: S)
  case Nil
  show ?case by simp
next
  case (Cons e es)
  show ?case
  proof (cases "key e")
    case None
    then show ?thesis using Cons.IH [of S] by auto
  next
    case (Some k')
    show ?thesis
    proof (cases "k' \<in> S")
      case True
      then show ?thesis using Some Cons.IH [of S] by auto
    next
      case False
      then show ?thesis using Some Cons.IH [of "insert k' S"] by auto
    qed
  qed
qed

lemma first_seen_keyed: "e \<in> set (first_seen key S es) \<Longrightarrow> key e \<noteq> None \<and> e \<in> set es"
  by (induction es arbitrary: S) (auto split: option.splits if_splits)

lemma first_seen_fresh: "e \<in> set (first_seen key S es) \<Longrightarrow> key e = Some k \<Longrightarrow> k \<notin> S"
  using first_seen_keys [of k key S es] by force

lemma first_seen_subseq: "subseq (first_seen key S es) es"
  by (induction es arbitrary: S) (auto split: option.splits)

lemma first_seen_distinct: "distinct (map key (first_seen key S es))"
proof (induction es arbitrary: S)
  case Nil
  show ?case by simp
next
  case (Cons e es)
  show ?case
  proof (cases "key e")
    case None
    then show ?thesis using Cons.IH [of S] by simp
  next
    case (Some k)
    show ?thesis
    proof (cases "k \<in> S")
      case True
      then show ?thesis using Some Cons.IH [of S] by simp
    next
      case False
      have "Some k \<notin> key ` set (first_seen key (insert k S) es)"
        using first_seen_keys [of k key "insert k S" es] by simp
      then show ?thesis using Some False Cons.IH [of "insert k S"] by simp
    qed
  qed
qed

lemma first_seen_find:
  "e \<in> set (first_seen key S es) \<Longrightarrow> List.find (\<lambda>x. key x = key e) es = Some e"
proof (induction es arbitrary: S)
  case Nil
  then show ?case by simp
next
  case (Cons x es)
  obtain k where k: "key e = Some k" "k \<notin> S"
    using first_seen_keyed [OF Cons.prems] first_seen_fresh [OF Cons.prems] by auto
  show ?case
  proof (cases "key x")
    case None
    then show ?thesis using Cons.prems Cons.IH [of S] k by simp
  next
    case (Some k')
    show ?thesis
    proof (cases "k' \<in> S")
      case True
      then have "k' \<noteq> k" using k by auto
      then show ?thesis using Some True Cons.prems Cons.IH [of S] k by simp
    next
      case False
      show ?thesis
      proof (cases "e = x")
        case True
        then show ?thesis by simp
      next
        case False
        then have in_rest: "e \<in> set (first_seen key (insert k' S) es)"
          using Cons.prems Some \<open>k' \<notin> S\<close> by simp
        then have "k \<noteq> k'" using first_seen_fresh [OF in_rest k(1)] by simp
        then show ?thesis using Some in_rest Cons.IH [of "insert k' S"] k by simp
      qed
    qed
  qed
qed

lemma first_seen_append:
  "first_seen key S (xs @ ys) =
   first_seen key S xs @ first_seen key (S \<union> {k. Some k \<in> key ` set xs}) ys"
proof (induction xs arbitrary: S)
  case Nil
  show ?case by simp
next
  case (Cons e xs)
  show ?case
  proof (cases "key e")
    case None
    then have "{k. Some k \<in> key ` set (e # xs)} = {k. Some k \<in> key ` set xs}" by auto
    then show ?thesis using None Cons.IH [of S] by simp
  next
    case (Some k')
    have keys: "{k. Some k \<in> key ` set (e # xs)} = insert k' {k. Some k \<in> key ` set xs}"
      using Some by auto
    show ?thesis
    proof (cases "k' \<in> S")
      case True
      then have "S \<union> insert k' {k. Some k \<in> key ` set xs} = S \<union> {k. Some k \<in> key ` set xs}"
        by auto
      then show ?thesis using Some True Cons.IH [of S] keys by simp
    next
      case False
      have "insert k' S \<union> {k. Some k \<in> key ` set xs} =
            S \<union> insert k' {k. Some k \<in> key ` set xs}"
        by auto
      then show ?thesis using Some False Cons.IH [of "insert k' S"] keys by simp
    qed
  qed
qed

lemma first_seen_length: "length (first_seen key S es) \<le> length (keyed key es)"
  by (induction es arbitrary: S) (auto simp: keyed_Cons le_SucI split: option.splits)

section \<open>The merge of all loaded manifests\<close>

lemma add_models_dom:
  "dom (seen_models (fst (add_models source es (self, a, k)))) =
   dom (seen_models self) \<union> {key. Some key \<in> model_key ` set es}"
proof -
  obtain self' a' k' where r: "add_models source es (self, a, k) = (self', a', k')"
    by (cases "add_models source es (self, a, k)")
  have sm: "seen_models self' key =
           (case seen_models self key of
              Some src \<Rightarrow> Some src
            | None \<Rightarrow> if Some key \<in> model_key ` set es then Some source else None)" for key
    using add_models_result [where self = self and S = "dom (seen_models self)" and source = source
        and es = es and a = a and k = k] r by simp
  have "key \<in> dom (seen_models self') \<longleftrightarrow>
        key \<in> dom (seen_models self) \<union> {key. Some key \<in> model_key ` set es}" for key
    using sm [of key] by (cases "seen_models self key") (simp_all add: domIff)
  then show ?thesis
    unfolding r by (simp only: fst_conv set_eq_iff simp_thms)
qed

lemma add_nodes_dom:
  "dom (seen_nodes (fst (add_nodes source es (self, a, k)))) =
   dom (seen_nodes self) \<union> {key. Some key \<in> node_key ` set es}"
proof -
  obtain self' a' k' where r: "add_nodes source es (self, a, k) = (self', a', k')"
    by (cases "add_nodes source es (self, a, k)")
  have sm: "seen_nodes self' key =
           (case seen_nodes self key of
              Some src \<Rightarrow> Some src
            | None \<Rightarrow> if Some key \<in> node_key ` set es then Some source else None)" for key
    using add_nodes_result [where self = self and S = "dom (seen_nodes self)" and source = source
        and es = es and a = a and k = k] r by simp
  have "key \<in> dom (seen_nodes self') \<longleftrightarrow>
        key \<in> dom (seen_nodes self) \<union> {key. Some key \<in> node_key ` set es}" for key
    using sm [of key] by (cases "seen_nodes self key") (simp_all add: domIff)
  then show ?thesis
    unfolding r by (simp only: fst_conv set_eq_iff simp_thms)
qed

lemma add_manifest_result:
  assumes "manifest \<noteq> []" "dom (seen_models self) = S" "dom (seen_nodes self) = T"
  shows "case add_manifest manifest source self of
           ((m_added, m_skipped, n_added, n_skipped), self') \<Rightarrow>
             models self' = models self @ first_seen model_key S (get_list manifest ''models'') \<and>
             m_added = length (first_seen model_key S (get_list manifest ''models'')) \<and>
             m_added + m_skipped = length (keyed model_key (get_list manifest ''models'')) \<and>
             custom_nodes self' =
               custom_nodes self @ first_seen node_key T (get_list manifest ''custom_nodes'') \<and>
             n_added = length (first_seen node_key T (get_list manifest ''custom_nodes'')) \<and>
             n_added + n_skipped = length (keyed node_key (get_list manifest ''custom_nodes'')) \<and>
             dom (seen_models self') =
               S \<union> {key. Some key \<in> model_key ` set (get_list manifest ''models'')} \<and>
             dom (seen_nodes self') =
               T \<union> {key. Some key \<in> node_key ` set (get_list manifest ''custom_nodes'')}"
proof -
  let ?ms = "get_list manifest ''models''" and ?ns = "get_list manifest ''custom_nodes''"
  obtain self1 ma mk where r1: "add_models source ?ms (self, 0, 0) = (self1, ma, mk)"
    by (cases "add_models source ?ms (self, 0, 0)")
  obtain self2 na nk where r2: "add_nodes source ?ns (self1, 0, 0) = (self2, na, nk)"
    by (cases "add_nodes source ?ns (self1, 0, 0)")
  have m: "models self1 = models self @ first_seen model_key S ?ms"
      "ma = length (first_seen model_key S ?ms)"
      "ma + mk = length (keyed model_key ?ms)"
      "custom_nodes self1 = custom_nodes self" "seen_nodes self1 = seen_nodes self"
    using add_models_result [OF assms(2), where source = source and es = ?ms and a = 0 and k = 0] r1 by simp_all
  have dm: "dom (seen_models self1) = S \<union> {key. Some key \<in> model_key ` set ?ms}"
    using add_models_dom [where source = source and es = ?ms and self = self and a = 0 and k = 0] r1 assms(2) by simp
  have T1: "dom (seen_nodes self1) = T" using m(5) assms(3) by simp
  have n: "custom_nodes self2 = custom_nodes self1 @ first_seen node_key T ?ns"
      "na = length (first_seen node_key T ?ns)"
      "na + nk = length (keyed node_key ?ns)"
      "models self2 = models self1" "seen_models self2 = seen_models self1"
    using add_nodes_result [OF T1, where source = source and es = ?ns and a = 0 and k = 0] r2 by simp_all
  have dn: "dom (seen_nodes self2) = T \<union> {key. Some key \<in> node_key ` set ?ns}"
    using add_nodes_dom [where source = source and es = ?ns and self = self1 and a = 0 and k = 0] r2 T1 by simp
  have "add_manifest manifest source self = ((ma, mk, na, nk), self2)"
    using assms(1) r1 r2 by (simp add: add_manifest_def)
  then show ?thesis using m n dm dn by simp
qed

lemma loaded_Cons:
  "loaded load (source # rest) =
     (case load source of
        None \<Rightarrow> loaded load rest
      | Some m \<Rightarrow> if m = [] then loaded load rest else (source, m) # loaded load rest)"
  by (simp add: loaded_def split: option.splits)

lemma arriving_models_Cons:
  "arriving_models load (source # rest) =
     (case load source of
        None \<Rightarrow> arriving_models load rest
      | Some m \<Rightarrow>
          if m = [] then arriving_models load rest
          else get_list m ''models'' @ arriving_models load rest)"
  by (simp add: arriving_models_def loaded_Cons split: option.splits)

lemma arriving_nodes_Cons:
  "arriving_nodes load (source # rest) =
     (case load source of
        None \<Rightarrow> arriving_nodes load rest
      | Some m \<Rightarrow>
          if m = [] then arriving_nodes load rest
          else get_list m ''custom_nodes'' @ arriving_nodes load rest)"
  by (simp add: arriving_nodes_def loaded_Cons split: option.splits)

lemma load_manifests_loop_skip:
  "load source = None \<or> load source = Some [] \<Longrightarrow>
   load_manifests_loop load (source # rest) (self, tm, tms, tn, tns) =
   load_manifests_loop load rest (self, tm, tms, tn, tns)"
  by auto

lemma load_manifests_loop_add:
  "load source = Some manifest \<Longrightarrow> manifest \<noteq> [] \<Longrightarrow>
   add_manifest manifest source self = ((ma, mk, na, nk), self') \<Longrightarrow>
   load_manifests_loop load (source # rest) (self, tm, tms, tn, tns) =
   load_manifests_loop load rest (self', tm + ma, tms + mk, tn + na, tns + nk)"
  by simp

lemma load_manifests_loop_result:
  "dom (seen_models self) = S \<Longrightarrow> dom (seen_nodes self) = T \<Longrightarrow>
   (case load_manifests_loop load sources (self, tm, tms, tn, tns) of
      (self', tm', tms', tn', tns') \<Rightarrow>
        models self' = models self @ first_seen model_key S (arriving_models load sources) \<and>
        tm' = tm + length (first_seen model_key S (arriving_models load sources)) \<and>
        tm' + tms' = tm + tms + length (keyed model_key (arriving_models load sources)) \<and>
        custom_nodes self' =
          custom_nodes self @ first_seen node_key T (arriving_nodes load sources) \<and>
        tn' = tn + length (first_seen node_key T (arriving_nodes load sources)) \<and>
        tn' + tns' = tn + tns + length (keyed node_key (arriving_nodes load sources)) \<and>
        dom (seen_models self') = S \<union> {key. Some key \<in> model_key ` set (arriving_models load sources)} \<and>
        dom (seen_nodes self') = T \<union> {key. Some key \<in> node_key ` set (arriving_nodes load sources)})"
proof (induction sources arbitrary: self S T tm tms tn tns)
  case Nil
  then show ?case by (simp add: arriving_models_def arriving_nodes_def loaded_def keyed_def)
next
  case (Cons source rest)
  show ?case
  proof (cases "load source = None \<or> load source = Some []")
    case True
    then have arr: "arriving_models load (source # rest) = arriving_models load rest"
        "arriving_nodes load (source # rest) = arriving_nodes load rest"
      by (auto simp: arriving_models_Cons arriving_nodes_Cons)
    show ?thesis
      unfolding load_manifests_loop_skip [where load = load and source = source, OF True] arr
      using Cons.IH [OF Cons.prems] .
  next
    case False
    then obtain manifest where l: "load source = Some manifest" "manifest \<noteq> []" by auto
    let ?ms = "get_list manifest ''models''" and ?ns = "get_list manifest ''custom_nodes''"
    have arr: "arriving_models load (source # rest) = ?ms @ arriving_models load rest"
        "arriving_nodes load (source # rest) = ?ns @ arriving_nodes load rest"
      using l by (simp_all add: arriving_models_Cons arriving_nodes_Cons)
    obtain ma mk na nk self1 where
      r: "add_manifest manifest source self = ((ma, mk, na, nk), self1)"
      by (cases "add_manifest manifest source self") auto
    let ?S = "S \<union> {key. Some key \<in> model_key ` set ?ms}"
    let ?T = "T \<union> {key. Some key \<in> node_key ` set ?ns}"
    have a: "models self1 = models self @ first_seen model_key S ?ms"
        "ma = length (first_seen model_key S ?ms)"
        "ma + mk = length (keyed model_key ?ms)"
        "custom_nodes self1 = custom_nodes self @ first_seen node_key T ?ns"
        "na = length (first_seen node_key T ?ns)"
        "na + nk = length (keyed node_key ?ns)"
        "dom (seen_models self1) = ?S" "dom (seen_nodes self1) = ?T"
      using add_manifest_result [OF l(2) Cons.prems, where source = source] r by simp_all
    obtain self' tm' tms' tn' tns' where
      fin: "load_manifests_loop load rest (self1, tm + ma, tms + mk, tn + na, tns + nk) =
            (self', tm', tms', tn', tns')"
      by (cases "load_manifests_loop load rest (self1, tm + ma, tms + mk, tn + na, tns + nk)")
    have ih: "models self' = models self1 @ first_seen model_key ?S (arriving_models load rest)"
        "tm' = tm + ma + length (first_seen model_key ?S (arriving_models load rest))"
        "tm' + tms' = tm + ma + (tms + mk) + length (keyed model_key (arriving_models load rest))"
        "custom_nodes self' = custom_nodes self1 @ first_seen node_key ?T (arriving_nodes load rest)"
        "tn' = tn + na + length (first_seen node_key ?T (arriving_nodes load rest))"
        "tn' + tns' = tn + na + (tns + nk) + length (keyed node_key (arriving_nodes load rest))"
        "dom (seen_models self') = ?S \<union> {key. Some key \<in> model_key ` set (arriving_models load rest)}"
        "dom (seen_nodes self') = ?T \<union> {key. Some key \<in> node_key ` set (arriving_nodes load rest)}"
      using Cons.IH [OF a(7) a(8), where tm = "tm + ma" and tms = "tms + mk" and tn = "tn + na" and tns = "tns + nk"] fin by simp_all
    have "load_manifests_loop load (source # rest) (self, tm, tms, tn, tns) =
          (self', tm', tms', tn', tns')"
      using load_manifests_loop_add [where load = load and source = source, OF l r] fin by simp
    moreover have "models self' = models self @ first_seen model_key S (?ms @ arriving_models load rest)"
      using ih(1) a(1) by (simp add: first_seen_append)
    moreover have "tm' = tm + length (first_seen model_key S (?ms @ arriving_models load rest))"
      using ih(2) a(2) by (simp add: first_seen_append)
    moreover have "tm' + tms' = tm + tms + length (keyed model_key (?ms @ arriving_models load rest))"
      using ih(3) a(3) by (simp add: keyed_append)
    moreover have "custom_nodes self' =
          custom_nodes self @ first_seen node_key T (?ns @ arriving_nodes load rest)"
      using ih(4) a(4) by (simp add: first_seen_append)
    moreover have "tn' = tn + length (first_seen node_key T (?ns @ arriving_nodes load rest))"
      using ih(5) a(5) by (simp add: first_seen_append)
    moreover have "tn' + tns' = tn + tns + length (keyed node_key (?ns @ arriving_nodes load rest))"
      using ih(6) a(6) by (simp add: keyed_append)
    moreover have "dom (seen_models self') =
          S \<union> {key. Some key \<in> model_key ` set (?ms @ arriving_models load rest)}"
      using ih(7) by auto
    moreover have "dom (seen_nodes self') =
          T \<union> {key. Some key \<in> node_key ` set (?ns @ arriving_nodes load rest)}"
      using ih(8) by auto
    ultimately show ?thesis unfolding arr by simp
  qed
qed

section \<open>The merge of the portable variant\<close>

lemma add_manifest_portable_result:
  assumes "manifest \<noteq> []" "dom (seen_models self) = S"
  shows "case add_manifest_portable manifest source self of
           ((m_added, m_skipped), self') \<Rightarrow>
             models self' = models self @ first_seen model_key S (get_list manifest ''models'') \<and>
             m_added = length (first_seen model_key S (get_list manifest ''models'')) \<and>
             m_added + m_skipped = length (keyed model_key (get_list manifest ''models'')) \<and>
             dom (seen_models self') =
               S \<union> {key. Some key \<in> model_key ` set (get_list manifest ''models'')}"
proof -
  let ?ms = "get_list manifest ''models''"
  obtain self1 ma mk where r1: "add_models source ?ms (self, 0, 0) = (self1, ma, mk)"
    by (cases "add_models source ?ms (self, 0, 0)")
  have m: "models self1 = models self @ first_seen model_key S ?ms"
      "ma = length (first_seen model_key S ?ms)"
      "ma + mk = length (keyed model_key ?ms)"
    using add_models_result [OF assms(2), where source = source and es = ?ms and a = 0 and k = 0]
      r1 by simp_all
  have dm: "dom (seen_models self1) = S \<union> {key. Some key \<in> model_key ` set ?ms}"
    using add_models_dom [where source = source and es = ?ms and self = self and a = 0 and k = 0]
      r1 assms(2) by simp
  have "add_manifest_portable manifest source self = ((ma, mk), self1)"
    using assms(1) r1 by (simp add: add_manifest_portable_def)
  then show ?thesis using m dm by simp
qed

lemma load_manifests_loop_portable_skip:
  "load source = None \<or> load source = Some [] \<Longrightarrow>
   load_manifests_loop_portable load (source # rest) (self, tm, tms) =
   load_manifests_loop_portable load rest (self, tm, tms)"
  by auto

lemma load_manifests_loop_portable_add:
  "load source = Some manifest \<Longrightarrow> manifest \<noteq> [] \<Longrightarrow>
   add_manifest_portable manifest source self = ((ma, mk), self') \<Longrightarrow>
   load_manifests_loop_portable load (source # rest) (self, tm, tms) =
   load_manifests_loop_portable load rest (self', tm + ma, tms + mk)"
  by simp

lemma load_manifests_loop_portable_result:
  "dom (seen_models self) = S \<Longrightarrow>
   (case load_manifests_loop_portable load sources (self, tm, tms) of
      (self', tm', tms') \<Rightarrow>
        models self' = models self @ first_seen model_key S (arriving_models load sources) \<and>
        tm' = tm + length (first_seen model_key S (arriving_models load sources)) \<and>
        tm' + tms' = tm + tms + length (keyed model_key (arriving_models load sources)) \<and>
        dom (seen_models self') =
          S \<union> {key. Some key \<in> model_key ` set (arriving_models load sources)})"
proof (induction sources arbitrary: self S tm tms)
  case Nil
  then show ?case by (simp add: arriving_models_def loaded_def keyed_def)
next
  case (Cons source rest)
  show ?case
  proof (cases "load source = None \<or> load source = Some []")
    case True
    then have arr: "arriving_models load (source # rest) = arriving_models load rest"
      by (auto simp: arriving_models_Cons)
    show ?thesis
      unfolding load_manifests_loop_portable_skip [where load = load and source = source, OF True]
        arr
      using Cons.IH [OF Cons.prems] .
  next
    case False
    then obtain manifest where l: "load source = Some manifest" "manifest \<noteq> []" by auto
    let ?ms = "get_list manifest ''models''"
    have arr: "arriving_models load (source # rest) = ?ms @ arriving_models load rest"
      using l by (simp add: arriving_models_Cons)
    obtain ma mk self1 where
      r: "add_manifest_portable manifest source self = ((ma, mk), self1)"
      by (cases "add_manifest_portable manifest source self") auto
    let ?S = "S \<union> {key. Some key \<in> model_key ` set ?ms}"
    have a: "models self1 = models self @ first_seen model_key S ?ms"
        "ma = length (first_seen model_key S ?ms)"
        "ma + mk = length (keyed model_key ?ms)"
        "dom (seen_models self1) = ?S"
      using add_manifest_portable_result [OF l(2) Cons.prems, where source = source] r
      by simp_all
    obtain self' tm' tms' where
      fin: "load_manifests_loop_portable load rest (self1, tm + ma, tms + mk) = (self', tm', tms')"
      by (cases "load_manifests_loop_portable load rest (self1, tm + ma, tms + mk)")
    have ih: "models self' = models self1 @ first_seen model_key ?S (arriving_models load rest)"
        "tm' = tm + ma + length (first_seen model_key ?S (arriving_models load rest))"
        "tm' + tms' = tm + ma + (tms + mk) + length (keyed model_key (arriving_models load rest))"
        "dom (seen_models self') =
           ?S \<union> {key. Some key \<in> model_key ` set (arriving_models load rest)}"
      using Cons.IH [OF a(4), where tm = "tm + ma" and tms = "tms + mk"] fin by simp_all
    have "load_manifests_loop_portable load (source # rest) (self, tm, tms) = (self', tm', tms')"
      using load_manifests_loop_portable_add [where load = load and source = source, OF l r] fin
      by simp
    moreover have
      "models self' = models self @ first_seen model_key S (?ms @ arriving_models load rest)"
      using ih(1) a(1) by (simp add: first_seen_append)
    moreover have
      "tm' = tm + length (first_seen model_key S (?ms @ arriving_models load rest))"
      using ih(2) a(2) by (simp add: first_seen_append)
    moreover have
      "tm' + tms' = tm + tms + length (keyed model_key (?ms @ arriving_models load rest))"
      using ih(3) a(3) by (simp add: keyed_append)
    moreover have "dom (seen_models self') =
          S \<union> {key. Some key \<in> model_key ` set (?ms @ arriving_models load rest)}"
      using ih(4) by auto
    ultimately show ?thesis unfolding arr by simp
  qed
qed

lemma load_manifests_portable_result:
  "case load_manifests_portable load sources init_manifest of
     (self', total_models, total_models_skipped) \<Rightarrow>
       models self' = first_seen model_key {} (arriving_models load sources) \<and>
       total_models = length (models self') \<and>
       total_models + total_models_skipped =
         length (keyed model_key (arriving_models load sources)) \<and>
       dom (seen_models self') = {key. Some key \<in> model_key ` set (models self')}"
proof -
  obtain self' tm tms where
    r: "load_manifests_loop_portable load sources (init_manifest, 0, 0) = (self', tm, tms)"
    by (cases "load_manifests_loop_portable load sources (init_manifest, 0, 0)")
  have S: "dom (seen_models init_manifest) = {}"
    by (simp add: init_manifest_def)
  have f: "models self' = first_seen model_key {} (arriving_models load sources)"
      "tm = length (first_seen model_key {} (arriving_models load sources))"
      "tm + tms = length (keyed model_key (arriving_models load sources))"
      "dom (seen_models self') = {key. Some key \<in> model_key ` set (arriving_models load sources)}"
    using load_manifests_loop_portable_result [OF S, where load = load and sources = sources
        and tm = 0 and tms = 0] r
    by (simp_all add: init_manifest_def)
  have km: "{key. Some key \<in> model_key ` set (arriving_models load sources)} =
            {key. Some key \<in> model_key ` set (models self')}"
    unfolding f(1) using first_seen_keys [where key = model_key and S = "{}"] by simp
  show ?thesis
    unfolding load_manifests_portable_def r using f km by simp
qed

section \<open>Claims about the merge\<close>

lemma add_models_snoc:
  "add_models source (es @ [e]) (self, a, k) =
     (case add_models source es (self, a, k) of
        (self', a', k') \<Rightarrow>
          (case model_key e of
             None \<Rightarrow> (self', a', k')
           | Some key \<Rightarrow>
               (case seen_models self' key of
                  Some first_source \<Rightarrow> (self', a', k' + 1)
                | None \<Rightarrow>
                    (self'\<lparr>models := models self' @ [e],
                           seen_models := (seen_models self')(key \<mapsto> source)\<rparr>,
                     a' + 1, k'))))"
proof -
  obtain self' a' k' where mid: "add_models source es (self, a, k) = (self', a', k')"
    by (cases "add_models source es (self, a, k)")
  have step: "add_models source (es @ [e]) (self, a, k) = add_models source [e] (self', a', k')"
    by (simp add: add_models_append mid del: add_models.simps)
  show ?thesis
  proof (cases "model_key e")
    case None
    then show ?thesis unfolding step mid
      by (simp add: add_models_skip del: add_models.simps(2))
  next
    case (Some key)
    then show ?thesis unfolding step mid
      by (cases "seen_models self' key")
         (simp_all add: add_models_new add_models_duplicate del: add_models.simps(2))
  qed
qed

lemma add_nodes_snoc:
  "add_nodes source (es @ [e]) (self, a, k) =
     (case add_nodes source es (self, a, k) of
        (self', a', k') \<Rightarrow>
          (case node_key e of
             None \<Rightarrow> (self', a', k')
           | Some key \<Rightarrow>
               (case seen_nodes self' key of
                  Some first_source \<Rightarrow> (self', a', k' + 1)
                | None \<Rightarrow>
                    (self'\<lparr>custom_nodes := custom_nodes self' @ [e],
                           seen_nodes := (seen_nodes self')(key \<mapsto> source)\<rparr>,
                     a' + 1, k'))))"
proof -
  obtain self' a' k' where mid: "add_nodes source es (self, a, k) = (self', a', k')"
    by (cases "add_nodes source es (self, a, k)")
  have step: "add_nodes source (es @ [e]) (self, a, k) = add_nodes source [e] (self', a', k')"
    by (simp add: add_nodes_append mid del: add_nodes.simps)
  show ?thesis
  proof (cases "node_key e")
    case None
    then show ?thesis unfolding step mid
      by (simp add: add_nodes_skip del: add_nodes.simps(2))
  next
    case (Some key)
    then show ?thesis unfolding step mid
      by (cases "seen_nodes self' key")
         (simp_all add: add_nodes_new add_nodes_duplicate del: add_nodes.simps(2))
  qed
qed

lemma load_manifests_result:
  "case load_manifests load sources init_manifest of
     (self', total_models, total_models_skipped, total_nodes, total_nodes_skipped) \<Rightarrow>
       models self' = first_seen model_key {} (arriving_models load sources) \<and>
       total_models = length (models self') \<and>
       total_models + total_models_skipped = length (keyed model_key (arriving_models load sources)) \<and>
       dom (seen_models self') = {key. Some key \<in> model_key ` set (models self')} \<and>
       custom_nodes self' = first_seen node_key {} (arriving_nodes load sources) \<and>
       total_nodes = length (custom_nodes self') \<and>
       total_nodes + total_nodes_skipped = length (keyed node_key (arriving_nodes load sources)) \<and>
       dom (seen_nodes self') = {key. Some key \<in> node_key ` set (custom_nodes self')}"
proof -
  obtain self' tm tms tn tns where
    r: "load_manifests_loop load sources (init_manifest, 0, 0, 0, 0) = (self', tm, tms, tn, tns)"
    by (cases "load_manifests_loop load sources (init_manifest, 0, 0, 0, 0)")
  have S: "dom (seen_models init_manifest) = {}" and T: "dom (seen_nodes init_manifest) = {}"
    by (simp_all add: init_manifest_def)
  have f: "models self' = first_seen model_key {} (arriving_models load sources)"
      "tm = length (first_seen model_key {} (arriving_models load sources))"
      "tm + tms = length (keyed model_key (arriving_models load sources))"
      "custom_nodes self' = first_seen node_key {} (arriving_nodes load sources)"
      "tn = length (first_seen node_key {} (arriving_nodes load sources))"
      "tn + tns = length (keyed node_key (arriving_nodes load sources))"
      "dom (seen_models self') = {key. Some key \<in> model_key ` set (arriving_models load sources)}"
      "dom (seen_nodes self') = {key. Some key \<in> node_key ` set (arriving_nodes load sources)}"
    using load_manifests_loop_result [OF S T, where load = load and sources = sources
        and tm = 0 and tms = 0 and tn = 0 and tns = 0] r
    by (simp_all add: init_manifest_def)
  have km: "{key. Some key \<in> model_key ` set (arriving_models load sources)} =
            {key. Some key \<in> model_key ` set (models self')}"
    unfolding f(1) using first_seen_keys [where key = model_key and S = "{}"] by simp
  have kn: "{key. Some key \<in> node_key ` set (arriving_nodes load sources)} =
            {key. Some key \<in> node_key ` set (custom_nodes self')}"
    unfolding f(4) using first_seen_keys [where key = node_key and S = "{}"] by simp
  show ?thesis
    unfolding load_manifests_def r using f km kn by simp
qed

text \<open>
  C1.  Merging is a stable single pass with case-insensitive first-seen-wins
  deduplication.  Step by step: after any entries \<open>es\<close> of a manifest, the next entry
  \<open>e\<close> is dropped when it has no key; when its lowercased key is in the seen-map it is
  discarded, the manifest's duplicate counter grows by one and the loader is unchanged;
  otherwise it is appended to the plan, its key is registered to the current source
  and the added counter grows by one (models and nodes alike).  As a whole: starting
  from a fresh loader, the plan is the first-seen-wins deduplication of all arriving
  entries, a subsequence of them with pairwise different keys, the seen-map holds
  exactly the keys of the plan, and the totals count the plan and the discarded
  duplicates; the portable variant builds the same plan of models.  In particular two manifests that each declare one model, with URLs that
  agree after lowercasing, give a plan holding only the first model and a duplicate
  count of 1.
\<close>

theorem merge_first_seen_wins:
  "add_models source (es @ [e]) (self, a, k) =
     (case add_models source es (self, a, k) of
        (self', a', k') \<Rightarrow>
          (case model_key e of
             None \<Rightarrow> (self', a', k')
           | Some key \<Rightarrow>
               (case seen_models self' key of
                  Some first_source \<Rightarrow> (self', a', k' + 1)
                | None \<Rightarrow>
                    (self'\<lparr>models := models self' @ [e],
                           seen_models := (seen_models self')(key \<mapsto> source)\<rparr>,
                     a' + 1, k')))) \<and>
   add_nodes source (es @ [e]) (self, a, k) =
     (case add_nodes source es (self, a, k) of
        (self', a', k') \<Rightarrow>
          (case node_key e of
             None \<Rightarrow> (self', a', k')
           | Some key \<Rightarrow>
               (case seen_nodes self' key of
                  Some first_source \<Rightarrow> (self', a', k' + 1)
                | None \<Rightarrow>
                    (self'\<lparr>custom_nodes := custom_nodes self' @ [e],
                           seen_nodes := (seen_nodes self')(key \<mapsto> source)\<rparr>,
                     a' + 1, k')))) \<and>
   (case load_manifests load sources init_manifest of
      (self', total_models, total_models_skipped, total_nodes, total_nodes_skipped) \<Rightarrow>
        models self' = first_seen model_key {} (arriving_models load sources) \<and>
        subseq (models self') (arriving_models load sources) \<and>
        distinct (map model_key (models self')) \<and>
        dom (seen_models self') = {key. Some key \<in> model_key ` set (models self')} \<and>
        total_models = length (models self') \<and>
        total_models + total_models_skipped =
          length (keyed model_key (arriving_models load sources)) \<and>
        custom_nodes self' = first_seen node_key {} (arriving_nodes load sources) \<and>
        subseq (custom_nodes self') (arriving_nodes load sources) \<and>
        distinct (map node_key (custom_nodes self')) \<and>
        dom (seen_nodes self') = {key. Some key \<in> node_key ` set (custom_nodes self')} \<and>
        total_nodes = length (custom_nodes self') \<and>
        total_nodes + total_nodes_skipped =
          length (keyed node_key (arriving_nodes load sources))) \<and>
   (case load_manifests_portable load sources init_manifest of
      (self', total_models, total_models_skipped) \<Rightarrow>
        models self' = first_seen model_key {} (arriving_models load sources) \<and>
        total_models = length (models self') \<and>
        total_models + total_models_skipped =
          length (keyed model_key (arriving_models load sources)) \<and>
        dom (seen_models self') = {key. Some key \<in> model_key ` set (models self')}) \<and>
   (dict_get m1 ''url'' = Some u1 \<and> dict_get m2 ''url'' = Some u2 \<and> u1 \<noteq> [] \<and>
    lower u1 = lower u2 \<and>
    load s1 = Some [(''models'', [m1])] \<and> load s2 = Some [(''models'', [m2])] \<longrightarrow>
      (case load_manifests load [s1, s2] init_manifest of
         (self', total_models, total_models_skipped, total_nodes, total_nodes_skipped) \<Rightarrow>
           models self' = [m1] \<and> total_models = 1 \<and> total_models_skipped = 1))"
proof (intro conjI impI)
  show "add_models source (es @ [e]) (self, a, k) =
     (case add_models source es (self, a, k) of
        (self', a', k') \<Rightarrow>
          (case model_key e of
             None \<Rightarrow> (self', a', k')
           | Some key \<Rightarrow>
               (case seen_models self' key of
                  Some first_source \<Rightarrow> (self', a', k' + 1)
                | None \<Rightarrow>
                    (self'\<lparr>models := models self' @ [e],
                           seen_models := (seen_models self')(key \<mapsto> source)\<rparr>,
                     a' + 1, k'))))"
    by (rule add_models_snoc)
  show "add_nodes source (es @ [e]) (self, a, k) =
     (case add_nodes source es (self, a, k) of
        (self', a', k') \<Rightarrow>
          (case node_key e of
             None \<Rightarrow> (self', a', k')
           | Some key \<Rightarrow>
               (case seen_nodes self' key of
                  Some first_source \<Rightarrow> (self', a', k' + 1)
                | None \<Rightarrow>
                    (self'\<lparr>custom_nodes := custom_nodes self' @ [e],
                           seen_nodes := (seen_nodes self')(key \<mapsto> source)\<rparr>,
                     a' + 1, k'))))"
    by (rule add_nodes_snoc)
  show "case load_manifests load sources init_manifest of
      (self', total_models, total_models_skipped, total_nodes, total_nodes_skipped) \<Rightarrow>
        models self' = first_seen model_key {} (arriving_models load sources) \<and>
        subseq (models self') (arriving_models load sources) \<and>
        distinct (map model_key (models self')) \<and>
        dom (seen_models self') = {key. Some key \<in> model_key ` set (models self')} \<and>
        total_models = length (models self') \<and>
        total_models + total_models_skipped =
          length (keyed model_key (arriving_models load sources)) \<and>
        custom_nodes self' = first_seen node_key {} (arriving_nodes load sources) \<and>
        subseq (custom_nodes self') (arriving_nodes load sources) \<and>
        distinct (map node_key (custom_nodes self')) \<and>
        dom (seen_nodes self') = {key. Some key \<in> node_key ` set (custom_nodes self')} \<and>
        total_nodes = length (custom_nodes self') \<and>
        total_nodes + total_nodes_skipped =
          length (keyed node_key (arriving_nodes load sources))"
    using load_manifests_result [of load sources]
    by (auto simp: first_seen_subseq first_seen_distinct split: prod.splits)
  show "case load_manifests_portable load sources init_manifest of
      (self', total_models, total_models_skipped) \<Rightarrow>
        models self' = first_seen model_key {} (arriving_models load sources) \<and>
        total_models = length (models self') \<and>
        total_models + total_models_skipped =
          length (keyed model_key (arriving_models load sources)) \<and>
        dom (seen_models self') = {key. Some key \<in> model_key ` set (models self')}"
    by (rule load_manifests_portable_result)
next
  assume h: "dict_get m1 ''url'' = Some u1 \<and> dict_get m2 ''url'' = Some u2 \<and> u1 \<noteq> [] \<and>
    lower u1 = lower u2 \<and>
    load s1 = Some [(''models'', [m1])] \<and> load s2 = Some [(''models'', [m2])]"
  then have "lower u2 \<noteq> []" by (metis lower_def map_is_Nil_conv)
  then have u2: "u2 \<noteq> []" by (auto simp: lower_def)
  have k1: "model_key m1 = Some (lower u1)" and k2: "model_key m2 = Some (lower u1)"
    using h u2 by (simp_all add: model_key_def)
  have arr: "arriving_models load [s1, s2] = [m1, m2]"
    using h by (simp add: arriving_models_def loaded_def get_list_def dict_get_def)
  have fs: "first_seen model_key {} [m1, m2] = [m1]" and ke: "keyed model_key [m1, m2] = [m1, m2]"
    using k1 k2 by (simp_all add: keyed_def)
  show "case load_manifests load [s1, s2] init_manifest of
         (self', total_models, total_models_skipped, total_nodes, total_nodes_skipped) \<Rightarrow>
           models self' = [m1] \<and> total_models = 1 \<and> total_models_skipped = 1"
    using load_manifests_result [of load "[s1, s2]"] unfolding arr fs ke
    by (auto split: prod.splits)
qed

theorem merge_first_seen_wins_witness:
  "case load_manifests sample_load [''a.json'', ''b.json''] init_manifest of
     (self', total_models, total_models_skipped, total_nodes, total_nodes_skipped) \<Rightarrow>
       models self' = [sample_upper] \<and> total_models = 1 \<and> total_models_skipped = 1"
proof -
  have h: "dict_get sample_upper ''url'' = Some ''HTTPS://Host.org/Base.BIN'' \<and>
        dict_get sample_lower ''url'' = Some ''https://host.org/base.bin'' \<and>
        ''HTTPS://Host.org/Base.BIN'' \<noteq> [] \<and>
        lower ''HTTPS://Host.org/Base.BIN'' = lower ''https://host.org/base.bin'' \<and>
        sample_load ''a.json'' = Some [(''models'', [sample_upper])] \<and>
        sample_load ''b.json'' = Some [(''models'', [sample_lower])]"
    by (simp add: sample_upper_def sample_lower_def sample_load_def dict_get_def lower_def
        lower_char_def)
  show ?thesis
    by (rule merge_first_seen_wins [where load = sample_load and ?s1.0 = "''a.json''"
        and ?s2.0 = "''b.json''" and ?m1.0 = sample_upper and ?m2.0 = sample_lower
        and ?u1.0 = "''HTTPS://Host.org/Base.BIN''" and ?u2.0 = "''https://host.org/base.bin''",
        THEN conjunct2, THEN conjunct2, THEN conjunct2, THEN conjunct2, THEN mp, OF h])
qed

section \<open>Sources that fail to load\<close>

lemma load_manifests_loop_append:
  "load_manifests_loop load (xs @ ys) acc =
   load_manifests_loop load ys (load_manifests_loop load xs acc)"
proof (induction xs arbitrary: acc)
  case Nil
  obtain self tm tms tn tns where "acc = (self, tm, tms, tn, tns)" by (cases acc)
  then show ?case by simp
next
  case (Cons source xs)
  obtain self tm tms tn tns where acc: "acc = (self, tm, tms, tn, tns)" by (cases acc)
  show ?case
  proof (cases "load source = None \<or> load source = Some []")
    case True
    show ?thesis
      unfolding acc append_Cons
        load_manifests_loop_skip [where load = load and source = source, OF True]
      by (rule Cons.IH)
  next
    case False
    then obtain manifest where l: "load source = Some manifest" "manifest \<noteq> []" by auto
    obtain ma mk na nk self1 where
      r: "add_manifest manifest source self = ((ma, mk, na, nk), self1)"
      by (cases "add_manifest manifest source self") auto
    show ?thesis
      unfolding acc append_Cons
        load_manifests_loop_add [where load = load and source = source, OF l r]
      by (rule Cons.IH)
  qed
qed

lemma load_manifests_loop_portable_append:
  "load_manifests_loop_portable load (xs @ ys) acc =
   load_manifests_loop_portable load ys (load_manifests_loop_portable load xs acc)"
proof (induction xs arbitrary: acc)
  case Nil
  obtain self tm tms where "acc = (self, tm, tms)" by (cases acc)
  then show ?case by simp
next
  case (Cons source xs)
  obtain self tm tms where acc: "acc = (self, tm, tms)" by (cases acc)
  show ?case
  proof (cases "load source = None \<or> load source = Some []")
    case True
    show ?thesis
      unfolding acc append_Cons
        load_manifests_loop_portable_skip [where load = load and source = source, OF True]
      by (rule Cons.IH)
  next
    case False
    then obtain manifest where l: "load source = Some manifest" "manifest \<noteq> []" by auto
    obtain ma mk self1 where
      r: "add_manifest_portable manifest source self = ((ma, mk), self1)"
      by (cases "add_manifest_portable manifest source self") auto
    show ?thesis
      unfolding acc append_Cons
        load_manifests_loop_portable_add [where load = load and source = source, OF l r]
      by (rule Cons.IH)
  qed
qed

lemma load_manifests_drop_failed:
  assumes "load source = None \<or> load source = Some []"
  shows "load_manifests load (before @ source # rest) self =
         load_manifests load (before @ rest) self"
proof -
  obtain self1 tm tms tn tns where
    mid: "load_manifests_loop load before (self, 0, 0, 0, 0) = (self1, tm, tms, tn, tns)"
    by (cases "load_manifests_loop load before (self, 0, 0, 0, 0)")
  show ?thesis
    unfolding load_manifests_def load_manifests_loop_append mid
      load_manifests_loop_skip [where load = load and source = source, OF assms]
    by (rule refl)
qed

lemma load_manifests_portable_drop_failed:
  assumes "load source = None \<or> load source = Some []"
  shows "load_manifests_portable load (before @ source # rest) self =
         load_manifests_portable load (before @ rest) self"
proof -
  obtain self1 tm tms where
    mid: "load_manifests_loop_portable load before (self, 0, 0) = (self1, tm, tms)"
    by (cases "load_manifests_loop_portable load before (self, 0, 0)")
  show ?thesis
    unfolding load_manifests_portable_def load_manifests_loop_portable_append mid
      load_manifests_loop_portable_skip [where load = load and source = source, OF assms]
    by (rule refl)
qed

lemma load_manifests_all_failed:
  "\<forall>source \<in> set sources. load source = None \<or> load source = Some [] \<Longrightarrow>
   load_manifests load sources self = (self, 0, 0, 0, 0)"
  unfolding load_manifests_def
proof (induction sources)
  case Nil
  show ?case by simp
next
  case (Cons source rest)
  then have f: "load source = None \<or> load source = Some []" by simp
  show ?case
    unfolding load_manifests_loop_skip [where load = load and source = source, OF f]
    using Cons by simp
qed

lemma load_manifests_portable_all_failed:
  "\<forall>source \<in> set sources. load source = None \<or> load source = Some [] \<Longrightarrow>
   load_manifests_portable load sources self = (self, 0, 0)"
  unfolding load_manifests_portable_def
proof (induction sources)
  case Nil
  show ?case by simp
next
  case (Cons source rest)
  then have f: "load source = None \<or> load source = Some []" by simp
  show ?case
    unfolding load_manifests_loop_portable_skip [where load = load and source = source, OF f]
    using Cons by simp
qed

lemma select_models_empty_plan [simp]:
  "select_models (get_combined_manifest init_manifest) types_filter = []"
  "select_models (get_combined_manifest_portable init_manifest) types_filter = []"
  by (simp_all add: select_models_def get_combined_manifest_def
      get_combined_manifest_portable_def init_manifest_def get_list_def dict_get_def
      split: option.splits)

text \<open>
  C10.  A manifest source that fails to load (\<open>load_manifest\<close> gives \<open>None\<close>, or an empty
  object, which the loop treats alike) contributes nothing: wherever it stands among the
  sources, the merged plan, the seen-maps and all totals are those of the run without
  it, so the loop goes on with the remaining sources.  When every source fails, a run
  that gets past the validation of the command line ends with an empty plan, no
  success, no failure, the world untouched and exit code 0, in both variants.
\<close>

theorem failed_sources_contribute_nothing:
  "(load source = None \<or> load source = Some [] \<longrightarrow>
      load_manifests load (before @ source # rest) self =
        load_manifests load (before @ rest) self \<and>
      load_manifests_portable load (before @ source # rest) self =
        load_manifests_portable load (before @ rest) self) \<and>
   ((\<forall>source \<in> set (manifests a).
        load_manifest env source = None \<or> load_manifest env source = Some []) \<longrightarrow>
      (\<not> (models_only a \<and> nodes_only a) \<longrightarrow>
         main env a w =
           Inr \<lparr>exit_code = 0, total_success = 0, total_fail = 0,
                loader = init_manifest, after = w\<rparr>) \<and>
      main_portable env a w =
        Inr \<lparr>exit_code = 0, total_success = 0, total_fail = 0,
             loader = init_manifest, after = w\<rparr> \<and>
      models init_manifest = [] \<and> custom_nodes init_manifest = [])"
proof (intro conjI impI)
  assume f: "load source = None \<or> load source = Some []"
  show "load_manifests load (before @ source # rest) self =
        load_manifests load (before @ rest) self"
    by (rule load_manifests_drop_failed [where load = load and source = source, OF f])
  show "load_manifests_portable load (before @ source # rest) self =
        load_manifests_portable load (before @ rest) self"
    by (rule load_manifests_portable_drop_failed [where load = load and source = source, OF f])
next
  assume all: "\<forall>source \<in> set (manifests a).
        load_manifest env source = None \<or> load_manifest env source = Some []"
  assume flags: "\<not> (models_only a \<and> nodes_only a)"
  have l: "load_manifests (load_manifest env) (manifests a) init_manifest =
           (init_manifest, 0, 0, 0, 0)"
    by (rule load_manifests_all_failed [OF all])
  have dm: "download_models dl_full env (get_combined_manifest init_manifest) (types a)
              (dry_run a) w = Inr (0, 0, w)"
    by (simp add: download_models_def)
  have nodes: "install_custom_nodes env (get_combined_manifest init_manifest) (dry_run a) w =
               (0, 0, w)"
    by (simp add: install_custom_nodes_def get_combined_manifest_def init_manifest_def
        get_list_def dict_get_def)
  show "main env a w =
           Inr \<lparr>exit_code = 0, total_success = 0, total_fail = 0,
                loader = init_manifest, after = w\<rparr>"
    using flags by (simp add: main_def l Let_def dm nodes)
next
  assume all: "\<forall>source \<in> set (manifests a).
        load_manifest env source = None \<or> load_manifest env source = Some []"
  have l: "load_manifests_portable (load_manifest env) (manifests a) init_manifest =
           (init_manifest, 0, 0)"
    by (rule load_manifests_portable_all_failed [OF all])
  show "main_portable env a w =
        Inr \<lparr>exit_code = 0, total_success = 0, total_fail = 0,
             loader = init_manifest, after = w\<rparr>"
    by (simp add: main_portable_def l Let_def download_models_def)
qed (simp_all add: init_manifest_def)

theorem failed_sources_contribute_nothing_witness:
  "main sample_env sample_args_unreachable empty_world =
     Inr \<lparr>exit_code = 0, total_success = 0, total_fail = 0,
          loader = init_manifest, after = empty_world\<rparr> \<and>
   main_portable sample_env sample_args_unreachable empty_world =
     Inr \<lparr>exit_code = 0, total_success = 0, total_fail = 0,
          loader = init_manifest, after = empty_world\<rparr>"
proof -
  have all: "\<forall>source \<in> set (manifests sample_args_unreachable).
        load_manifest sample_env source = None \<or> load_manifest sample_env source = Some []"
    by (simp add: sample_args_unreachable_def sample_env_def sample_load_def)
  have flags: "\<not> (models_only sample_args_unreachable \<and> nodes_only sample_args_unreachable)"
    by (simp add: sample_args_unreachable_def)
  note t = failed_sources_contribute_nothing
      [where env = sample_env and a = sample_args_unreachable and w = empty_world,
        THEN conjunct2, THEN mp, OF all]
  show ?thesis
    using t flags by blast
qed

section \<open>The integrity verifier\<close>

lemma read_blocks_step:
  "read_blocks content =
     (if content = [] then [] else take 4096 content # read_blocks (drop 4096 content))"
  by (subst read_blocks.simps) (simp add: Let_def)

lemma read_blocks_concat: "concat (read_blocks content) = content"
proof (induction content rule: read_blocks.induct)
  case (1 content)
  show ?case
  proof (cases "content = []")
    case True
    then show ?thesis by (subst read_blocks_step) simp
  next
    case False
    then have "take 4096 content \<noteq> []" by simp
    then have "concat (read_blocks (drop 4096 content)) = drop 4096 content"
      using "1.IH" by simp
    then show ?thesis using False by (subst read_blocks_step) simp
  qed
qed

lemma read_blocks_sizes:
  "b \<in> set (read_blocks content) \<Longrightarrow> 0 < length b \<and> length b \<le> 4096"
proof (induction content rule: read_blocks.induct)
  case (1 content)
  show ?case
  proof (cases "content = []")
    case True
    then show ?thesis using "1.prems" by (subst (asm) read_blocks_step) simp
  next
    case False
    then have ne: "take 4096 content \<noteq> []" by simp
    from "1.prems" False have "b = take 4096 content \<or> b \<in> set (read_blocks (drop 4096 content))"
      by (subst (asm) read_blocks_step) auto
    then show ?thesis
    proof
      assume "b = take 4096 content"
      then show ?thesis using False by simp
    next
      assume "b \<in> set (read_blocks (drop 4096 content))"
      then show ?thesis using "1.IH" [OF refl ne] by simp
    qed
  qed
qed

lemma read_blocks_full:
  "b \<in> set (butlast (read_blocks content)) \<Longrightarrow> length b = 4096"
proof (induction content rule: read_blocks.induct)
  case (1 content)
  show ?case
  proof (cases "content = []")
    case True
    then show ?thesis using "1.prems" by (subst (asm) read_blocks_step) simp
  next
    case False
    then have ne: "take 4096 content \<noteq> []" by simp
    have rb: "read_blocks content = take 4096 content # read_blocks (drop 4096 content)"
      using False by (subst read_blocks_step) simp
    show ?thesis
    proof (cases "read_blocks (drop 4096 content) = []")
      case True
      then show ?thesis using "1.prems" rb by simp
    next
      case False
      then have "drop 4096 content \<noteq> []"
        by (subst (asm) read_blocks_step) (simp split: if_splits)
      then have full: "length (take 4096 content) = 4096" by simp
      from "1.prems" rb False
      have "b = take 4096 content \<or> b \<in> set (butlast (read_blocks (drop 4096 content)))"
        by auto
      then show ?thesis using full "1.IH" [OF refl ne] by auto
    qed
  qed
qed

lemma fold_sha256_update: "fold sha256_update blocks absorbed = absorbed @ concat blocks"
  by (induction blocks arbitrary: absorbed) (simp_all add: sha256_update_def)

lemma verify_hash_eq:
  "files w file_path = Some content \<Longrightarrow>
   verify_hash env w file_path expected_hash =
     Inr (sha256_hexdigest env content = expected_hash)"
  by (simp add: verify_hash_def fold_sha256_update read_blocks_concat)

lemma verify_hash_missing:
  "files w file_path = None \<Longrightarrow>
   verify_hash env w file_path expected_hash = Inl FileNotFoundError"
  by (simp add: verify_hash_def)

text \<open>
  C6.  Digest verification of an existing file is a function of the file's bytes and
  the expected value only: it reads the file in blocks of 4096 bytes (every block is
  non-empty, every block but the last is full, and together they are the file), and
  answers whether the hex digest of the bytes equals the expected string, character
  for character.  So the file's own digest verifies, and an expected value obtained
  from that digest by changing one character, be it only its case, does not.
\<close>

theorem verify_hash_roundtrip:
  "files w file_path = Some content \<longrightarrow>
     verify_hash env w file_path expected_hash =
       Inr (sha256_hexdigest env content = expected_hash) \<and>
     verify_hash env w file_path (sha256_hexdigest env content) = Inr True \<and>
     (i < length (sha256_hexdigest env content) \<and> c \<noteq> sha256_hexdigest env content ! i \<longrightarrow>
        verify_hash env w file_path ((sha256_hexdigest env content)[i := c]) = Inr False) \<and>
     concat (read_blocks content) = content \<and>
     (\<forall>b \<in> set (read_blocks content). 0 < length b \<and> length b \<le> 4096) \<and>
     (\<forall>b \<in> set (butlast (read_blocks content)). length b = 4096)"
proof (intro impI conjI ballI)
  assume f: "files w file_path = Some content"
  show "verify_hash env w file_path expected_hash =
       Inr (sha256_hexdigest env content = expected_hash)"
    by (rule verify_hash_eq [OF f])
  show "verify_hash env w file_path (sha256_hexdigest env content) = Inr True"
    by (simp add: verify_hash_eq [OF f])
  show "concat (read_blocks content) = content"
    by (rule read_blocks_concat)
next
  assume f: "files w file_path = Some content"
  assume h: "i < length (sha256_hexdigest env content) \<and> c \<noteq> sha256_hexdigest env content ! i"
  then have "(sha256_hexdigest env content)[i := c] ! i \<noteq> sha256_hexdigest env content ! i"
    by simp
  then have "sha256_hexdigest env content \<noteq> (sha256_hexdigest env content)[i := c]"
    by metis
  then show "verify_hash env w file_path ((sha256_hexdigest env content)[i := c]) = Inr False"
    by (simp add: verify_hash_eq [OF f])
next
  fix b assume "b \<in> set (read_blocks content)"
  then show "0 < length b" "length b \<le> 4096"
    using read_blocks_sizes by blast+
next
  fix b assume "b \<in> set (butlast (read_blocks content))"
  then show "length b = 4096" by (rule read_blocks_full)
qed

theorem verify_hash_roundtrip_witness:
  "verify_hash sample_env world_good sample_dest ''0a1b'' = Inr True \<and>
   verify_hash sample_env world_good sample_dest ''0A1b'' = Inr False"
proof -
  have f: "files world_good sample_dest = Some ''good bytes''"
    by (simp add: world_good_def)
  have d: "sha256_hexdigest sample_env ''good bytes'' = ''0a1b''"
    by (simp add: sample_env_def sample_digest_def)
  have h: "1 < length (sha256_hexdigest sample_env ''good bytes'') \<and>
           CHR ''A'' \<noteq> sha256_hexdigest sample_env ''good bytes'' ! 1"
    by (simp add: d)
  note t = verify_hash_roundtrip [where env = sample_env and w = world_good
      and file_path = sample_dest and content = "''good bytes''" and i = 1 and c = "CHR ''A''",
      THEN mp, OF f]
  have "verify_hash sample_env world_good sample_dest
          (sha256_hexdigest sample_env ''good bytes'') = Inr True"
    using t by blast
  moreover have "verify_hash sample_env world_good sample_dest
          ((sha256_hexdigest sample_env ''good bytes'')[1 := CHR ''A'']) = Inr False"
    using t h by blast
  ultimately show ?thesis by (simp add: d)
qed

section \<open>The transfer executor\<close>

lemma unlink_simps [simp]:
  "files (unlink dest_path w) = (files w)(dest_path := None)"
  "net_log (unlink dest_path w) = net_log w"
  "dirs (unlink dest_path w) = dirs w"
  by (simp_all add: unlink_def)

lemma unlink_absent: "files w dest_path = None \<Longrightarrow> unlink dest_path w = w"
  by (simp add: unlink_def fun_upd_idem)

lemma supplied_truthy: "supplied h = None \<longleftrightarrow> \<not> truthy h"
  by (simp add: supplied_def truthy_def split: option.splits)

text \<open>What \<open>fetch\<close> does, by the answer of the server.\<close>

lemma fetch_error:
  "requests_get env w url = HttpError \<Longrightarrow>
   fetch env url dest_path expected_hash w =
     (False, unlink dest_path (w\<lparr>net_log := net_log w @ [HttpGet url]\<rparr>))"
  by (simp add: fetch_def on_exception_def)

lemma fetch_broken:
  "requests_get env w url = HttpBroken partial \<Longrightarrow>
   fetch env url dest_path expected_hash w =
     (False, unlink dest_path (w\<lparr>net_log := net_log w @ [HttpGet url]\<rparr>))"
  by (simp add: fetch_def on_exception_def unlink_def)

lemma fetch_done:
  "requests_get env w url = HttpDone body \<Longrightarrow>
   fetch env url dest_path expected_hash w =
     (case supplied expected_hash of
        None \<Rightarrow>
          (True, w\<lparr>net_log := net_log w @ [HttpGet url],
                   files := (files w)(dest_path \<mapsto> body)\<rparr>)
      | Some digest \<Rightarrow>
          if sha256_hexdigest env body = digest
          then (True, w\<lparr>net_log := net_log w @ [HttpGet url],
                        files := (files w)(dest_path \<mapsto> body)\<rparr>)
          else (False, unlink dest_path (w\<lparr>net_log := net_log w @ [HttpGet url]\<rparr>)))"
  by (simp add: fetch_def Let_def verify_hash_eq unlink_def split: option.splits)

lemma fetch_props:
  assumes "fetch env url dest_path expected_hash w = (ok, w')"
  shows "net_log w' = net_log w @ [HttpGet url]"
    and "\<not> ok \<Longrightarrow> files w' dest_path = None"
    and "files w' dest_path = Some c \<Longrightarrow> supplied expected_hash = Some d \<Longrightarrow>
         sha256_hexdigest env c = d"
    and "ok \<Longrightarrow> \<exists>body. requests_get env w url = HttpDone body \<and> files w' dest_path = Some body"
    and "dirs w' = dirs w"
    and "p \<noteq> dest_path \<Longrightarrow> files w' p = files w p"
proof -
  consider "requests_get env w url = HttpError"
    | partial where "requests_get env w url = HttpBroken partial"
    | body where "requests_get env w url = HttpDone body"
    by (cases "requests_get env w url") auto
  then have "net_log w' = net_log w @ [HttpGet url] \<and>
      (\<not> ok \<longrightarrow> files w' dest_path = None) \<and>
      (files w' dest_path = Some c \<longrightarrow> supplied expected_hash = Some d \<longrightarrow>
         sha256_hexdigest env c = d) \<and>
      (ok \<longrightarrow> (\<exists>body. requests_get env w url = HttpDone body \<and> files w' dest_path = Some body)) \<and>
      dirs w' = dirs w \<and> (p \<noteq> dest_path \<longrightarrow> files w' p = files w p)"
  proof cases
    case 1
    then show ?thesis using assms by (auto simp: fetch_error)
  next
    case 2
    then show ?thesis using assms by (auto simp: fetch_broken)
  next
    case 3
    then show ?thesis using assms
      by (auto simp: fetch_done split: option.splits if_splits)
  qed
  then show "net_log w' = net_log w @ [HttpGet url]"
    and "\<not> ok \<Longrightarrow> files w' dest_path = None"
    and "files w' dest_path = Some c \<Longrightarrow> supplied expected_hash = Some d \<Longrightarrow>
         sha256_hexdigest env c = d"
    and "ok \<Longrightarrow> \<exists>body. requests_get env w url = HttpDone body \<and> files w' dest_path = Some body"
    and "dirs w' = dirs w"
    and "p \<noteq> dest_path \<Longrightarrow> files w' p = files w p"
    by blast+
qed

text \<open>The three ways through the first half of \<open>download_file\<close>.\<close>

lemma download_file_absent:
  "files w dest_path = None \<Longrightarrow>
   download_file env url dest_path expected_hash w = fetch env url dest_path expected_hash w"
  by (simp add: download_file_def)

lemma download_file_trusted:
  "files w dest_path = Some existing \<Longrightarrow> supplied expected_hash = None \<Longrightarrow>
   download_file env url dest_path expected_hash w = (True, w)"
  by (simp add: download_file_def)

lemma download_file_verified:
  "files w dest_path = Some existing \<Longrightarrow> supplied expected_hash = Some digest \<Longrightarrow>
   sha256_hexdigest env existing = digest \<Longrightarrow>
   download_file env url dest_path expected_hash w = (True, w)"
  by (simp add: download_file_def verify_hash_eq)

lemma download_file_stale:
  "files w dest_path = Some existing \<Longrightarrow> supplied expected_hash = Some digest \<Longrightarrow>
   sha256_hexdigest env existing \<noteq> digest \<Longrightarrow>
   download_file env url dest_path expected_hash w = fetch env url dest_path expected_hash w"
  by (simp add: download_file_def verify_hash_eq)

lemma download_file_cases:
  obtains (skipped) "download_file env url dest_path expected_hash w = (True, w)"
      "\<exists>existing. files w dest_path = Some existing \<and>
         (\<forall>d. supplied expected_hash = Some d \<longrightarrow> sha256_hexdigest env existing = d)"
    | (fetched) "download_file env url dest_path expected_hash w =
                   fetch env url dest_path expected_hash w"
proof (cases "files w dest_path")
  case None
  then show ?thesis using fetched download_file_absent by blast
next
  case (Some existing)
  show ?thesis
  proof (cases "supplied expected_hash")
    case None
    then show ?thesis using skipped download_file_trusted [OF Some None] Some by auto
  next
    case (Some digest)
    show ?thesis
    proof (cases "sha256_hexdigest env existing = digest")
      case True
      then show ?thesis
        using skipped download_file_verified [OF \<open>files w dest_path = Some existing\<close> Some True]
          \<open>files w dest_path = Some existing\<close> Some by auto
    next
      case False
      then show ?thesis
        using fetched download_file_stale [OF \<open>files w dest_path = Some existing\<close> Some False]
        by blast
    qed
  qed
qed

subsection \<open>Portable variant\<close>

text \<open>
  Whether the chosen transport of the portable variant reports success in world \<open>w\<close>,
  and the event it logs.
\<close>

lemma download_with_curl_props:
  assumes "download_with_curl env url dest_path w = (success, w1)"
  shows "net_log w1 = net_log w @ [Curl url]"
    and "dirs w1 = dirs w"
    and "p \<noteq> dest_path \<Longrightarrow> files w1 p = files w p"
    and "success \<longleftrightarrow> (\<exists>body. curl env w url dest_path = CurlDone body)"
    and "success \<Longrightarrow> \<exists>body. curl env w url dest_path = CurlDone body \<and> files w1 dest_path = Some body"
  using assms
  by (auto simp: download_with_curl_def Let_def split: curl_result.splits option.splits)

lemma download_with_requests_props:
  assumes "download_with_requests env url dest_path w = (success, w1)"
  shows "net_log w1 = net_log w @ [HttpGet url]"
    and "dirs w1 = dirs w"
    and "p \<noteq> dest_path \<Longrightarrow> files w1 p = files w p"
    and "success \<longleftrightarrow> (\<exists>body. requests_get env w url = HttpDone body)"
    and "success \<Longrightarrow>
         \<exists>body. requests_get env w url = HttpDone body \<and> files w1 dest_path = Some body"
  using assms
  by (auto simp: download_with_requests_def Let_def split: http_result.splits)

lemma check_download_props:
  assumes "success \<Longrightarrow> \<exists>body. files w1 dest_path = Some body"
  shows "\<exists>ok w'. check_download env dest_path expected_hash (success, w1) = Inr (ok, w') \<and>
           net_log w' = net_log w1 \<and> dirs w' = dirs w1 \<and>
           (\<forall>p. p \<noteq> dest_path \<longrightarrow> files w' p = files w1 p) \<and>
           (ok \<longrightarrow> success \<and> w' = w1) \<and>
           (\<not> ok \<longrightarrow> files w' dest_path = None) \<and>
           (\<forall>c d. files w' dest_path = Some c \<and> supplied expected_hash = Some d \<longrightarrow>
              sha256_hexdigest env c = d)"
proof (cases success)
  case False
  then have "check_download env dest_path expected_hash (success, w1) =
             Inr (False, unlink dest_path w1)"
    by (simp add: check_download_def)
  then show ?thesis using False by auto
next
  case True
  then obtain body where b: "files w1 dest_path = Some body" using assms by blast
  show ?thesis
  proof (cases "supplied expected_hash")
    case None
    then show ?thesis using True by (auto simp: check_download_def)
  next
    case (Some digest)
    then show ?thesis using True b
      by (cases "sha256_hexdigest env body = digest")
         (auto simp: check_download_def verify_hash_eq [OF b])
  qed
qed

lemma fetch_portable_props:
  "\<exists>ok w'. fetch_portable env url dest_path expected_hash w = Inr (ok, w') \<and>
     net_log w' =
       net_log w @ (if has_curl env then [Curl url]
                    else if has_requests env then [HttpGet url] else []) \<and>
     dirs w' = dirs w \<and>
     (\<forall>p. p \<noteq> dest_path \<longrightarrow> files w' p = files w p) \<and>
     (files w dest_path = None \<and> \<not> ok \<longrightarrow> files w' dest_path = None) \<and>
     (has_curl env \<or> has_requests env \<longrightarrow>
        (\<not> ok \<longrightarrow> files w' dest_path = None) \<and>
        (\<forall>c d. files w' dest_path = Some c \<and> supplied expected_hash = Some d \<longrightarrow>
           sha256_hexdigest env c = d)) \<and>
     (ok \<longrightarrow>
        (if has_curl env then \<exists>body. curl env w url dest_path = CurlDone body
         else has_requests env \<and> (\<exists>body. requests_get env w url = HttpDone body)))"
proof (cases "has_curl env")
  case True
  obtain success w1 where t: "download_with_curl env url dest_path w = (success, w1)"
    by (cases "download_with_curl env url dest_path w")
  note p = download_with_curl_props [OF t]
  have "success \<Longrightarrow> \<exists>body. files w1 dest_path = Some body" using p(5) by blast
  from check_download_props [OF this, where env = env and expected_hash = expected_hash]
  obtain ok w' where c: "check_download env dest_path expected_hash (success, w1) = Inr (ok, w')"
      "net_log w' = net_log w1" "dirs w' = dirs w1"
      "\<forall>p. p \<noteq> dest_path \<longrightarrow> files w' p = files w1 p"
      "ok \<longrightarrow> success \<and> w' = w1" "\<not> ok \<longrightarrow> files w' dest_path = None"
      "\<forall>c d. files w' dest_path = Some c \<and> supplied expected_hash = Some d \<longrightarrow>
              sha256_hexdigest env c = d"
    by blast
  have "fetch_portable env url dest_path expected_hash w = Inr (ok, w')"
    using True t c(1) by (simp add: fetch_portable_def)
  then show ?thesis using True c p by auto
next
  case False
  show ?thesis
  proof (cases "has_requests env")
    case True
    obtain success w1 where t: "download_with_requests env url dest_path w = (success, w1)"
      by (cases "download_with_requests env url dest_path w")
    note p = download_with_requests_props [OF t]
    have "success \<Longrightarrow> \<exists>body. files w1 dest_path = Some body" using p(5) by blast
    from check_download_props [OF this, where env = env and expected_hash = expected_hash]
    obtain ok w' where c: "check_download env dest_path expected_hash (success, w1) = Inr (ok, w')"
        "net_log w' = net_log w1" "dirs w' = dirs w1"
        "\<forall>p. p \<noteq> dest_path \<longrightarrow> files w' p = files w1 p"
        "ok \<longrightarrow> success \<and> w' = w1" "\<not> ok \<longrightarrow> files w' dest_path = None"
        "\<forall>c d. files w' dest_path = Some c \<and> supplied expected_hash = Some d \<longrightarrow>
                sha256_hexdigest env c = d"
      by blast
    have "fetch_portable env url dest_path expected_hash w = Inr (ok, w')"
      using \<open>\<not> has_curl env\<close> True t c(1) by (simp add: fetch_portable_def)
    then show ?thesis using \<open>\<not> has_curl env\<close> True c p by auto
  next
    case False
    then show ?thesis using \<open>\<not> has_curl env\<close> by (auto simp: fetch_portable_def)
  qed
qed

lemma download_file_portable_absent:
  "files w dest_path = None \<Longrightarrow>
   download_file_portable env url dest_path expected_hash w =
     fetch_portable env url dest_path expected_hash w"
  by (simp add: download_file_portable_def)

lemma download_file_portable_trusted:
  "files w dest_path = Some existing \<Longrightarrow> supplied expected_hash = None \<Longrightarrow>
   download_file_portable env url dest_path expected_hash w = Inr (True, w)"
  by (simp add: download_file_portable_def)

lemma download_file_portable_verified:
  "files w dest_path = Some existing \<Longrightarrow> supplied expected_hash = Some digest \<Longrightarrow>
   sha256_hexdigest env existing = digest \<Longrightarrow>
   download_file_portable env url dest_path expected_hash w = Inr (True, w)"
  by (simp add: download_file_portable_def verify_hash_eq)

lemma download_file_portable_stale:
  "files w dest_path = Some existing \<Longrightarrow> supplied expected_hash = Some digest \<Longrightarrow>
   sha256_hexdigest env existing \<noteq> digest \<Longrightarrow>
   download_file_portable env url dest_path expected_hash w =
     fetch_portable env url dest_path expected_hash (unlink dest_path w)"
  by (simp add: download_file_portable_def verify_hash_eq)

lemma download_file_portable_cases:
  obtains (skipped) "download_file_portable env url dest_path expected_hash w = Inr (True, w)"
      "\<exists>existing. files w dest_path = Some existing \<and>
         (\<forall>d. supplied expected_hash = Some d \<longrightarrow> sha256_hexdigest env existing = d)"
    | (fetched) "download_file_portable env url dest_path expected_hash w =
                   fetch_portable env url dest_path expected_hash (unlink dest_path w)"
proof (cases "files w dest_path")
  case None
  then show ?thesis
    using fetched download_file_portable_absent [OF None] unlink_absent [OF None] by simp
next
  case (Some existing)
  show ?thesis
  proof (cases "supplied expected_hash")
    case None
    then show ?thesis using skipped download_file_portable_trusted [OF Some None] Some by auto
  next
    case (Some digest)
    show ?thesis
    proof (cases "sha256_hexdigest env existing = digest")
      case True
      then show ?thesis
        using skipped
          download_file_portable_verified [OF \<open>files w dest_path = Some existing\<close> Some True]
          \<open>files w dest_path = Some existing\<close> Some by auto
    next
      case False
      then show ?thesis
        using fetched
          download_file_portable_stale [OF \<open>files w dest_path = Some existing\<close> Some False]
        by blast
    qed
  qed
qed

subsection \<open>Outcomes of an acquisition\<close>

lemma fetch_outcome:
  assumes "fetch env url dest_path expected_hash w = (ok, w')"
  shows "ok \<longleftrightarrow> (\<exists>body. served env w url = Some body \<and>
                   (\<forall>d. supplied expected_hash = Some d \<longrightarrow> sha256_hexdigest env body = d))"
    and "ok \<Longrightarrow> files w' dest_path = served env w url"
proof -
  consider "requests_get env w url = HttpError"
    | partial where "requests_get env w url = HttpBroken partial"
    | body where "requests_get env w url = HttpDone body"
    by (cases "requests_get env w url") auto
  then have "(ok \<longleftrightarrow> (\<exists>body. served env w url = Some body \<and>
                   (\<forall>d. supplied expected_hash = Some d \<longrightarrow> sha256_hexdigest env body = d))) \<and>
             (ok \<longrightarrow> files w' dest_path = served env w url)"
  proof cases
    case 1
    then show ?thesis using assms by (auto simp: fetch_error served_def)
  next
    case 2
    then show ?thesis using assms by (auto simp: fetch_broken served_def)
  next
    case 3
    then show ?thesis using assms
      by (auto simp: fetch_done served_def split: option.splits if_splits)
  qed
  then show "ok \<longleftrightarrow> (\<exists>body. served env w url = Some body \<and>
                   (\<forall>d. supplied expected_hash = Some d \<longrightarrow> sha256_hexdigest env body = d))"
    and "ok \<Longrightarrow> files w' dest_path = served env w url"
    by blast+
qed

lemma check_download_eq:
  "check_download env dest_path expected_hash (False, w1) = Inr (False, unlink dest_path w1)"
  "files w1 dest_path = Some body \<Longrightarrow>
   check_download env dest_path expected_hash (True, w1) =
     Inr (if \<forall>d. supplied expected_hash = Some d \<longrightarrow> sha256_hexdigest env body = d
          then (True, w1) else (False, unlink dest_path w1))"
  by (auto simp: check_download_def verify_hash_eq split: option.splits)

lemma download_with_curl_eq:
  "curl env w url dest_path = CurlDone body \<Longrightarrow>
   download_with_curl env url dest_path w =
     (True, w\<lparr>net_log := net_log w @ [Curl url], files := (files w)(dest_path \<mapsto> body)\<rparr>)"
  "curl env w url dest_path = CurlFailed partial \<Longrightarrow>
   fst (download_with_curl env url dest_path w) = False"
  by (auto simp: download_with_curl_def Let_def split: option.splits)

lemma download_with_requests_eq:
  "requests_get env w url = HttpDone body \<Longrightarrow>
   download_with_requests env url dest_path w =
     (True, w\<lparr>net_log := net_log w @ [HttpGet url], files := (files w)(dest_path \<mapsto> body)\<rparr>)"
  "requests_get env w url = HttpError \<Longrightarrow>
   fst (download_with_requests env url dest_path w) = False"
  "requests_get env w url = HttpBroken partial \<Longrightarrow>
   fst (download_with_requests env url dest_path w) = False"
  by (auto simp: download_with_requests_def Let_def)

lemma check_download_outcome:
  assumes "check_download env dest_path expected_hash (success, w1) = Inr (ok, w')"
    and "success \<Longrightarrow> files w1 dest_path = Some body"
  shows "ok \<longleftrightarrow> success \<and> (\<forall>d. supplied expected_hash = Some d \<longrightarrow> sha256_hexdigest env body = d)"
    and "ok \<Longrightarrow> files w' dest_path = Some body"
proof -
  have "(ok \<longleftrightarrow> success \<and>
           (\<forall>d. supplied expected_hash = Some d \<longrightarrow> sha256_hexdigest env body = d)) \<and>
        (ok \<longrightarrow> files w' dest_path = Some body)"
  proof (cases success)
    case True
    then have b: "files w1 dest_path = Some body" using assms(2) by simp
    have "Inr (if \<forall>d. supplied expected_hash = Some d \<longrightarrow> sha256_hexdigest env body = d
               then (True, w1) else (False, unlink dest_path w1)) = Inr (ok, w')"
      using assms(1) True check_download_eq(2) [OF b, of env expected_hash] by simp
    then show ?thesis using True b by (auto split: if_splits)
  next
    case False
    then show ?thesis using assms(1) by (simp add: check_download_eq(1))
  qed
  then show "ok \<longleftrightarrow> success \<and>
               (\<forall>d. supplied expected_hash = Some d \<longrightarrow> sha256_hexdigest env body = d)"
    and "ok \<Longrightarrow> files w' dest_path = Some body"
    by blast+
qed

lemma fetch_portable_outcome:
  assumes "fetch_portable env url dest_path expected_hash w = Inr (ok, w')"
  shows "ok \<longleftrightarrow> (\<exists>body. served_portable env w url dest_path = Some body \<and>
                   (\<forall>d. supplied expected_hash = Some d \<longrightarrow> sha256_hexdigest env body = d))"
    and "ok \<Longrightarrow> files w' dest_path = served_portable env w url dest_path"
proof -
  have "(ok \<longleftrightarrow> (\<exists>body. served_portable env w url dest_path = Some body \<and>
                   (\<forall>d. supplied expected_hash = Some d \<longrightarrow> sha256_hexdigest env body = d))) \<and>
        (ok \<longrightarrow> files w' dest_path = served_portable env w url dest_path)"
  proof (cases "has_curl env")
    case True
    obtain success w1 where t: "download_with_curl env url dest_path w = (success, w1)"
      by (cases "download_with_curl env url dest_path w")
    have c: "check_download env dest_path expected_hash (success, w1) = Inr (ok, w')"
      using assms True t by (simp add: fetch_portable_def)
    show ?thesis
    proof (cases "curl env w url dest_path")
      case (CurlDone body)
      have sv: "served_portable env w url dest_path = Some body"
        using True CurlDone by (simp add: served_portable_def)
      have s: "success" and b: "files w1 dest_path = Some body"
        using t download_with_curl_eq(1) [OF CurlDone] by auto
      show ?thesis
        using check_download_outcome [OF c, of body] s b sv by simp
    next
      case (CurlFailed partial)
      have sv: "served_portable env w url dest_path = None"
        using True CurlFailed by (simp add: served_portable_def)
      have s: "\<not> success" using t download_with_curl_eq(2) [OF CurlFailed] by simp
      show ?thesis
        using check_download_outcome(1) [OF c, of undefined] s sv by simp
    qed
  next
    case False
    show ?thesis
    proof (cases "has_requests env")
      case True
      obtain success w1 where t: "download_with_requests env url dest_path w = (success, w1)"
        by (cases "download_with_requests env url dest_path w")
      have c: "check_download env dest_path expected_hash (success, w1) = Inr (ok, w')"
        using assms True False t by (simp add: fetch_portable_def)
      show ?thesis
      proof (cases "requests_get env w url")
        case (HttpDone body)
        have sv: "served_portable env w url dest_path = Some body"
          using True False HttpDone by (simp add: served_portable_def served_def)
        have s: "success" and b: "files w1 dest_path = Some body"
          using t download_with_requests_eq(1) [OF HttpDone] by auto
        show ?thesis
          using check_download_outcome [OF c, of body] s b sv by simp
      next
        case HttpError
        have sv: "served_portable env w url dest_path = None"
          using True False HttpError by (simp add: served_portable_def served_def)
        have s: "\<not> success" using t download_with_requests_eq(2) [OF HttpError, of dest_path] by simp
        show ?thesis
          using check_download_outcome(1) [OF c, of undefined] s sv by simp
      next
        case (HttpBroken partial)
        have sv: "served_portable env w url dest_path = None"
          using True False HttpBroken by (simp add: served_portable_def served_def)
        have s: "\<not> success" using t download_with_requests_eq(3) [OF HttpBroken, of dest_path] by simp
        show ?thesis
          using check_download_outcome(1) [OF c, of undefined] s sv by simp
      qed
    next
      case no: False
      then show ?thesis using assms False
        by (auto simp: fetch_portable_def served_portable_def)
    qed
  qed
  then show "ok \<longleftrightarrow> (\<exists>body. served_portable env w url dest_path = Some body \<and>
                   (\<forall>d. supplied expected_hash = Some d \<longrightarrow> sha256_hexdigest env body = d))"
    and "ok \<Longrightarrow> files w' dest_path = served_portable env w url dest_path"
    by blast+
qed

lemma download_file_props:
  assumes "download_file env url dest_path expected_hash w = (ok, w')"
  shows "\<not> ok \<Longrightarrow> files w' dest_path = None"
    and "files w' dest_path = Some c \<Longrightarrow> supplied expected_hash = Some d \<Longrightarrow>
         sha256_hexdigest env c = d"
    and "net_log w' = net_log w \<or> net_log w' = net_log w @ [HttpGet url]"
    and "net_log w' \<noteq> net_log w \<Longrightarrow>
         (ok \<longleftrightarrow> (\<exists>body. served env w url = Some body \<and>
                   (\<forall>d. supplied expected_hash = Some d \<longrightarrow> sha256_hexdigest env body = d))) \<and>
         (ok \<longrightarrow> files w' dest_path = served env w url)"
proof -
  consider (skipped) "(ok, w') = (True, w)"
      "\<exists>existing. files w dest_path = Some existing \<and>
         (\<forall>d. supplied expected_hash = Some d \<longrightarrow> sha256_hexdigest env existing = d)"
    | (fetched) "fetch env url dest_path expected_hash w = (ok, w')"
    using assms by (cases rule: download_file_cases [of env url dest_path expected_hash w]) simp_all
  note c = this
  show "\<not> ok \<Longrightarrow> files w' dest_path = None"
    using c
  proof cases
    case skipped
    assume "\<not> ok"
    then show ?thesis using skipped(1) by simp
  next
    case fetched
    assume "\<not> ok"
    then show ?thesis by (rule fetch_props(2) [OF fetched])
  qed
  show "files w' dest_path = Some c \<Longrightarrow> supplied expected_hash = Some d \<Longrightarrow>
         sha256_hexdigest env c = d"
    using c
  proof cases
    case skipped
    assume "files w' dest_path = Some c" "supplied expected_hash = Some d"
    then show ?thesis using skipped by auto
  next
    case fetched
    assume "files w' dest_path = Some c" "supplied expected_hash = Some d"
    then show ?thesis by (rule fetch_props(3) [OF fetched])
  qed
  show "net_log w' = net_log w \<or> net_log w' = net_log w @ [HttpGet url]"
    using c
  proof cases
    case skipped
    then show ?thesis by simp
  next
    case fetched
    then show ?thesis using fetch_props(1) [OF fetched] by simp
  qed
  show "net_log w' \<noteq> net_log w \<Longrightarrow>
         (ok \<longleftrightarrow> (\<exists>body. served env w url = Some body \<and>
                   (\<forall>d. supplied expected_hash = Some d \<longrightarrow> sha256_hexdigest env body = d))) \<and>
         (ok \<longrightarrow> files w' dest_path = served env w url)"
    using c
  proof cases
    case skipped
    assume "net_log w' \<noteq> net_log w"
    then show ?thesis using skipped(1) by simp
  next
    case fetched
    show ?thesis using fetch_outcome [OF fetched] by simp
  qed
qed

lemma download_file_portable_props:
  "\<exists>ok w'. download_file_portable env url dest_path expected_hash w = Inr (ok, w') \<and>
     (\<not> ok \<longrightarrow> files w' dest_path = None) \<and>
     (\<forall>c d. files w' dest_path = Some c \<and> supplied expected_hash = Some d \<longrightarrow>
        sha256_hexdigest env c = d) \<and>
     (net_log w' = net_log w \<or> net_log w' = net_log w @ portable_event env url) \<and>
     (net_log w' \<noteq> net_log w \<longrightarrow>
        (ok \<longleftrightarrow> (\<exists>body. served_portable env (unlink dest_path w) url dest_path = Some body \<and>
                 (\<forall>d. supplied expected_hash = Some d \<longrightarrow> sha256_hexdigest env body = d))) \<and>
        (ok \<longrightarrow> files w' dest_path = served_portable env (unlink dest_path w) url dest_path))"
proof (cases rule: download_file_portable_cases [of env url dest_path expected_hash w])
  case skipped
  show ?thesis
  proof (intro exI conjI)
    show "download_file_portable env url dest_path expected_hash w = Inr (True, w)"
      by (rule skipped(1))
    show "\<forall>c d. files w dest_path = Some c \<and> supplied expected_hash = Some d \<longrightarrow>
        sha256_hexdigest env c = d"
      using skipped(2) by auto
  qed simp_all
next
  case fetched
  let ?w = "unlink dest_path w"
  from fetch_portable_props [of env url dest_path expected_hash ?w]
  obtain ok w' where f: "fetch_portable env url dest_path expected_hash ?w = Inr (ok, w')"
    and l: "net_log w' = net_log ?w @ (if has_curl env then [Curl url]
                    else if has_requests env then [HttpGet url] else [])"
    and a: "files ?w dest_path = None \<and> \<not> ok \<longrightarrow> files w' dest_path = None"
    and m: "has_curl env \<or> has_requests env \<longrightarrow>
        (\<not> ok \<longrightarrow> files w' dest_path = None) \<and>
        (\<forall>c d. files w' dest_path = Some c \<and> supplied expected_hash = Some d \<longrightarrow>
           sha256_hexdigest env c = d)"
    by blast
  have absent: "files ?w dest_path = None" by simp
  have gone: "\<not> ok \<longrightarrow> files w' dest_path = None" using a absent by blast
  have matches: "\<forall>c d. files w' dest_path = Some c \<and> supplied expected_hash = Some d \<longrightarrow>
        sha256_hexdigest env c = d"
  proof (cases "has_curl env \<or> has_requests env")
    case True
    then show ?thesis using m by blast
  next
    case False
    then have "\<not> ok" using fetch_portable_outcome(1) [OF f]
      by (auto simp: served_portable_def)
    then show ?thesis using gone by simp
  qed
  have log: "net_log w' = net_log w @ portable_event env url"
    using l by (simp add: portable_event_def)
  have eq: "download_file_portable env url dest_path expected_hash w = Inr (ok, w')"
    using fetched f by simp
  show ?thesis
  proof (intro exI conjI impI)
    show "download_file_portable env url dest_path expected_hash w = Inr (ok, w')"
      by (rule eq)
    show "\<forall>c d. files w' dest_path = Some c \<and> supplied expected_hash = Some d \<longrightarrow>
        sha256_hexdigest env c = d"
      by (rule matches)
    show "net_log w' = net_log w \<or> net_log w' = net_log w @ portable_event env url"
      using log by simp
    show "ok = (\<exists>body. served_portable env ?w url dest_path = Some body \<and>
                 (\<forall>d. supplied expected_hash = Some d \<longrightarrow> sha256_hexdigest env body = d))"
      by (rule fetch_portable_outcome(1) [OF f])
  next
    assume "\<not> ok"
    then show "files w' dest_path = None" using gone by simp
  next
    assume ok
    then show "files w' dest_path = served_portable env ?w url dest_path"
      by (rule fetch_portable_outcome(2) [OF f])
  qed
qed

lemma outcome_consequences:
  assumes "\<not> ok \<longrightarrow> gone"
    and "ok \<longleftrightarrow> (\<exists>body. sv = Some body \<and> (\<forall>d. expected = Some d \<longrightarrow> H body = d))"
  shows "(sv = None \<longrightarrow> \<not> ok \<and> gone) \<and>
         (\<forall>body d. sv = Some body \<and> expected = Some d \<and> H body \<noteq> d \<longrightarrow> \<not> ok \<and> gone)"
proof (intro conjI impI allI)
  assume "sv = None"
  then show "\<not> ok" using assms(2) by simp
  then show gone using assms(1) by simp
next
  fix body d
  assume a: "sv = Some body \<and> expected = Some d \<and> H body \<noteq> d"
  show "\<not> ok"
  proof
    assume ok
    then obtain b where "sv = Some b" "\<forall>d. expected = Some d \<longrightarrow> H b = d" using assms(2) by blast
    then show False using a by simp
  qed
  then show gone using assms(1) by simp
qed

text \<open>
  C5.  In both variants a failed acquisition leaves no destination file, and a file that
  remains when a digest was supplied has that digest.  When the transport is invoked
  (the log of network events grows): if it fails, the outcome is Failed and the
  destination, partial or not, is gone; if it succeeds but the digest of the new file
  differs from the supplied one, the outcome is Failed and the file is gone; and the
  outcome is Succeeded exactly when the transport delivers a body that matches the
  supplied digest, if any.  The portable variant always returns (it never raises).
\<close>

theorem failed_acquisition_leaves_no_file:
  "(download_file env url dest_path expected_hash w = (ok, w') \<longrightarrow>
      (\<not> ok \<longrightarrow> files w' dest_path = None) \<and>
      (\<forall>c d. files w' dest_path = Some c \<and> supplied expected_hash = Some d \<longrightarrow>
         sha256_hexdigest env c = d) \<and>
      (net_log w' \<noteq> net_log w \<longrightarrow>
         (served env w url = None \<longrightarrow> \<not> ok \<and> files w' dest_path = None) \<and>
         (\<forall>body d. served env w url = Some body \<and> supplied expected_hash = Some d \<and>
            sha256_hexdigest env body \<noteq> d \<longrightarrow> \<not> ok \<and> files w' dest_path = None) \<and>
         (ok \<longleftrightarrow> (\<exists>body. served env w url = Some body \<and>
            (\<forall>d. supplied expected_hash = Some d \<longrightarrow> sha256_hexdigest env body = d))))) \<and>
   (\<exists>r. download_file_portable env url dest_path expected_hash w = Inr r) \<and>
   (download_file_portable env url dest_path expected_hash w = Inr (ok, w') \<longrightarrow>
      (\<not> ok \<longrightarrow> files w' dest_path = None) \<and>
      (\<forall>c d. files w' dest_path = Some c \<and> supplied expected_hash = Some d \<longrightarrow>
         sha256_hexdigest env c = d) \<and>
      (net_log w' \<noteq> net_log w \<longrightarrow>
         (served_portable env (unlink dest_path w) url dest_path = None \<longrightarrow>
            \<not> ok \<and> files w' dest_path = None) \<and>
         (\<forall>body d. served_portable env (unlink dest_path w) url dest_path = Some body \<and>
            supplied expected_hash = Some d \<and> sha256_hexdigest env body \<noteq> d \<longrightarrow>
            \<not> ok \<and> files w' dest_path = None) \<and>
         (ok \<longleftrightarrow> (\<exists>body. served_portable env (unlink dest_path w) url dest_path = Some body \<and>
            (\<forall>d. supplied expected_hash = Some d \<longrightarrow> sha256_hexdigest env body = d)))))"
proof (intro conjI)
  show "download_file env url dest_path expected_hash w = (ok, w') \<longrightarrow>
      (\<not> ok \<longrightarrow> files w' dest_path = None) \<and>
      (\<forall>c d. files w' dest_path = Some c \<and> supplied expected_hash = Some d \<longrightarrow>
         sha256_hexdigest env c = d) \<and>
      (net_log w' \<noteq> net_log w \<longrightarrow>
         (served env w url = None \<longrightarrow> \<not> ok \<and> files w' dest_path = None) \<and>
         (\<forall>body d. served env w url = Some body \<and> supplied expected_hash = Some d \<and>
            sha256_hexdigest env body \<noteq> d \<longrightarrow> \<not> ok \<and> files w' dest_path = None) \<and>
         (ok \<longleftrightarrow> (\<exists>body. served env w url = Some body \<and>
            (\<forall>d. supplied expected_hash = Some d \<longrightarrow> sha256_hexdigest env body = d))))"
  proof
    assume r: "download_file env url dest_path expected_hash w = (ok, w')"
    have gone: "\<not> ok \<longrightarrow> files w' dest_path = None"
      using download_file_props(1) [OF r] by blast
    have matches: "\<forall>c d. files w' dest_path = Some c \<and> supplied expected_hash = Some d \<longrightarrow>
         sha256_hexdigest env c = d"
      using download_file_props(2) [OF r] by blast
    have out: "net_log w' \<noteq> net_log w \<longrightarrow>
        (ok \<longleftrightarrow> (\<exists>body. served env w url = Some body \<and>
            (\<forall>d. supplied expected_hash = Some d \<longrightarrow> sha256_hexdigest env body = d)))"
      using download_file_props(4) [OF r] by blast
    show "(\<not> ok \<longrightarrow> files w' dest_path = None) \<and>
      (\<forall>c d. files w' dest_path = Some c \<and> supplied expected_hash = Some d \<longrightarrow>
         sha256_hexdigest env c = d) \<and>
      (net_log w' \<noteq> net_log w \<longrightarrow>
         (served env w url = None \<longrightarrow> \<not> ok \<and> files w' dest_path = None) \<and>
         (\<forall>body d. served env w url = Some body \<and> supplied expected_hash = Some d \<and>
            sha256_hexdigest env body \<noteq> d \<longrightarrow> \<not> ok \<and> files w' dest_path = None) \<and>
         (ok \<longleftrightarrow> (\<exists>body. served env w url = Some body \<and>
            (\<forall>d. supplied expected_hash = Some d \<longrightarrow> sha256_hexdigest env body = d))))"
      using gone matches out
        outcome_consequences [where ok = ok and gone = "files w' dest_path = None"
          and sv = "served env w url" and expected = "supplied expected_hash"
          and H = "sha256_hexdigest env"]
      by blast
  qed
next
  show "\<exists>r. download_file_portable env url dest_path expected_hash w = Inr r"
    using download_file_portable_props [of env url dest_path expected_hash w] by blast
next
  show "download_file_portable env url dest_path expected_hash w = Inr (ok, w') \<longrightarrow>
      (\<not> ok \<longrightarrow> files w' dest_path = None) \<and>
      (\<forall>c d. files w' dest_path = Some c \<and> supplied expected_hash = Some d \<longrightarrow>
         sha256_hexdigest env c = d) \<and>
      (net_log w' \<noteq> net_log w \<longrightarrow>
         (served_portable env (unlink dest_path w) url dest_path = None \<longrightarrow>
            \<not> ok \<and> files w' dest_path = None) \<and>
         (\<forall>body d. served_portable env (unlink dest_path w) url dest_path = Some body \<and>
            supplied expected_hash = Some d \<and> sha256_hexdigest env body \<noteq> d \<longrightarrow>
            \<not> ok \<and> files w' dest_path = None) \<and>
         (ok \<longleftrightarrow> (\<exists>body. served_portable env (unlink dest_path w) url dest_path = Some body \<and>
            (\<forall>d. supplied expected_hash = Some d \<longrightarrow> sha256_hexdigest env body = d))))"
  proof
    assume r: "download_file_portable env url dest_path expected_hash w = Inr (ok, w')"
    from download_file_portable_props [of env url dest_path expected_hash w]
    obtain ok1 w1 where r1: "download_file_portable env url dest_path expected_hash w = Inr (ok1, w1)"
      and gone1: "\<not> ok1 \<longrightarrow> files w1 dest_path = None"
      and matches1: "\<forall>c d. files w1 dest_path = Some c \<and> supplied expected_hash = Some d \<longrightarrow>
          sha256_hexdigest env c = d"
      and out1: "net_log w1 \<noteq> net_log w \<longrightarrow>
          (ok1 \<longleftrightarrow> (\<exists>body. served_portable env (unlink dest_path w) url dest_path = Some body \<and>
                   (\<forall>d. supplied expected_hash = Some d \<longrightarrow> sha256_hexdigest env body = d)))"
      by blast
    have same: "ok1 = ok" "w1 = w'" using r r1 by simp_all
    note gone = gone1 [unfolded same] and matches = matches1 [unfolded same]
      and out = out1 [unfolded same]
    show "(\<not> ok \<longrightarrow> files w' dest_path = None) \<and>
      (\<forall>c d. files w' dest_path = Some c \<and> supplied expected_hash = Some d \<longrightarrow>
         sha256_hexdigest env c = d) \<and>
      (net_log w' \<noteq> net_log w \<longrightarrow>
         (served_portable env (unlink dest_path w) url dest_path = None \<longrightarrow>
            \<not> ok \<and> files w' dest_path = None) \<and>
         (\<forall>body d. served_portable env (unlink dest_path w) url dest_path = Some body \<and>
            supplied expected_hash = Some d \<and> sha256_hexdigest env body \<noteq> d \<longrightarrow>
            \<not> ok \<and> files w' dest_path = None) \<and>
         (ok \<longleftrightarrow> (\<exists>body. served_portable env (unlink dest_path w) url dest_path = Some body \<and>
            (\<forall>d. supplied expected_hash = Some d \<longrightarrow> sha256_hexdigest env body = d))))"
      using gone matches out
        outcome_consequences [where ok = ok and gone = "files w' dest_path = None"
          and sv = "served_portable env (unlink dest_path w) url dest_path"
          and expected = "supplied expected_hash" and H = "sha256_hexdigest env"]
      by blast
  qed
qed

lemma sample_cut_run:
  "download_file sample_env ''https://host.org/cut.bin'' sample_dest None empty_world =
     (False, \<lparr>files = Map.empty, dirs = {}, net_log = [HttpGet ''https://host.org/cut.bin'']\<rparr>)"
  by (simp add: download_file_def fetch_def on_exception_def unlink_def sample_env_def
      sample_get_def empty_world_def)

theorem failed_acquisition_leaves_no_file_witness:
  "fst (download_file sample_env ''https://host.org/cut.bin'' sample_dest None empty_world) =
     False \<and>
   files (snd (download_file sample_env ''https://host.org/cut.bin'' sample_dest None
     empty_world)) sample_dest = None"
proof -
  let ?w' = "\<lparr>files = Map.empty, dirs = {}, net_log = [HttpGet ''https://host.org/cut.bin'']\<rparr>"
  have grew: "net_log ?w' \<noteq> net_log empty_world"
    by (simp add: empty_world_def)
  have none: "served sample_env empty_world ''https://host.org/cut.bin'' = None"
    by (simp add: served_def sample_env_def sample_get_def)
  note t = failed_acquisition_leaves_no_file [where env = sample_env
      and url = "''https://host.org/cut.bin''" and dest_path = sample_dest
      and expected_hash = None and w = empty_world and ok = False and w' = ?w',
      THEN conjunct1, THEN mp, OF sample_cut_run]
  have "\<not> False \<and> files ?w' sample_dest = None"
    using t grew none by blast
  then show ?thesis
    unfolding sample_cut_run by simp
qed

text \<open>
  C2 (as stated).  The claim promises a fresh fetch whenever a supplied digest does not
  match the existing file.  On a host without \<open>curl\<close> and without \<open>requests\<close> the portable
  variant deletes the stale file and returns Failed without invoking any transport:
  the log of network events stays empty.
\<close>

theorem stale_file_without_transport_counterexample:
  "files world_stale sample_dest = Some ''old bytes'' \<and>
   supplied (Some ''0a1b'') = Some ''0a1b'' \<and>
   sha256_hexdigest offline_env ''old bytes'' \<noteq> ''0a1b'' \<and>
   download_file_portable offline_env good_url sample_dest (Some ''0a1b'') world_stale =
     Inr (False, \<lparr>files = Map.empty, dirs = {}, net_log = []\<rparr>)"
  by (simp add: world_stale_def supplied_def offline_env_def sample_env_def sample_digest_def
      download_file_portable_def verify_hash_eq fetch_portable_def unlink_def)

text \<open>
  C2 (amended).  When the destination file exists: if no digest is supplied, or the
  supplied digest matches the file, both variants return True and leave the world,
  the log of network events included, as it was.  If a supplied digest does not match,
  the stale content does not survive the call in either variant.  The full variant
  then always invokes its transport once; afterwards the destination is absent or
  holds the body just delivered.  The portable variant always returns, deletes the
  stale file first and goes on as for an absent destination; it invokes its transport
  once when \<open>curl\<close> or \<open>requests\<close> is there, and otherwise returns Failed without any
  network event.
\<close>

theorem existing_destination_protocol:
  "files w dest_path = Some existing \<longrightarrow>
     ((supplied expected_hash = None \<or>
       supplied expected_hash = Some (sha256_hexdigest env existing)) \<longrightarrow>
        download_file env url dest_path expected_hash w = (True, w) \<and>
        download_file_portable env url dest_path expected_hash w = Inr (True, w)) \<and>
     (\<forall>digest. supplied expected_hash = Some digest \<and>
        sha256_hexdigest env existing \<noteq> digest \<longrightarrow>
        (\<forall>ok w'. download_file env url dest_path expected_hash w = (ok, w') \<longrightarrow>
           net_log w' = net_log w @ [HttpGet url] \<and>
           files w' dest_path \<noteq> Some existing \<and>
           (files w' dest_path = None \<or> ok \<and> files w' dest_path = served env w url)) \<and>
        download_file_portable env url dest_path expected_hash w =
          fetch_portable env url dest_path expected_hash (unlink dest_path w) \<and>
        files (unlink dest_path w) dest_path = None \<and>
        (\<exists>r. download_file_portable env url dest_path expected_hash w = Inr r) \<and>
        (\<forall>ok w'. download_file_portable env url dest_path expected_hash w = Inr (ok, w') \<longrightarrow>
           net_log w' = net_log w @ portable_event env url \<and>
           files w' dest_path \<noteq> Some existing \<and>
           (\<not> has_curl env \<and> \<not> has_requests env \<longrightarrow>
              \<not> ok \<and> w' = unlink dest_path w)))"
proof (intro impI conjI allI)
  assume e: "files w dest_path = Some existing"
  assume "supplied expected_hash = None \<or>
       supplied expected_hash = Some (sha256_hexdigest env existing)"
  then show "download_file env url dest_path expected_hash w = (True, w)"
    using download_file_trusted [OF e] download_file_verified [OF e] by blast
next
  assume e: "files w dest_path = Some existing"
  assume "supplied expected_hash = None \<or>
       supplied expected_hash = Some (sha256_hexdigest env existing)"
  then show "download_file_portable env url dest_path expected_hash w = Inr (True, w)"
    using download_file_portable_trusted [OF e] download_file_portable_verified [OF e] by blast
next
  fix digest ok w'
  assume e: "files w dest_path = Some existing"
    and s: "supplied expected_hash = Some digest \<and> sha256_hexdigest env existing \<noteq> digest"
    and r: "download_file env url dest_path expected_hash w = (ok, w')"
  have f: "fetch env url dest_path expected_hash w = (ok, w')"
    using download_file_stale [OF e, of expected_hash digest env url] s r by simp
  show log: "net_log w' = net_log w @ [HttpGet url]"
    by (rule fetch_props(1) [OF f])
  show "files w' dest_path \<noteq> Some existing"
    using fetch_props(3) [OF f, of existing digest] s by blast
  show "files w' dest_path = None \<or> ok \<and> files w' dest_path = served env w url"
    using fetch_props(2) [OF f] fetch_outcome(2) [OF f] by blast
next
  fix digest
  assume e: "files w dest_path = Some existing"
    and s: "supplied expected_hash = Some digest \<and> sha256_hexdigest env existing \<noteq> digest"
  show st: "download_file_portable env url dest_path expected_hash w =
          fetch_portable env url dest_path expected_hash (unlink dest_path w)"
    using download_file_portable_stale [OF e, of expected_hash digest env url] s by simp
  show "files (unlink dest_path w) dest_path = None" by simp
  show "\<exists>r. download_file_portable env url dest_path expected_hash w = Inr r"
    using download_file_portable_props [of env url dest_path expected_hash w] by blast
next
  fix digest ok w'
  assume e: "files w dest_path = Some existing"
    and s: "supplied expected_hash = Some digest \<and> sha256_hexdigest env existing \<noteq> digest"
    and r: "download_file_portable env url dest_path expected_hash w = Inr (ok, w')"
  have f: "fetch_portable env url dest_path expected_hash (unlink dest_path w) = Inr (ok, w')"
    using download_file_portable_stale [OF e, of expected_hash digest env url] s r by simp
  from fetch_portable_props [of env url dest_path expected_hash "unlink dest_path w"]
  obtain ok1 w1 where f1: "fetch_portable env url dest_path expected_hash (unlink dest_path w) =
        Inr (ok1, w1)"
    and l1: "net_log w1 = net_log (unlink dest_path w) @
       (if has_curl env then [Curl url] else if has_requests env then [HttpGet url] else [])"
    by blast
  have same: "ok1 = ok" "w1 = w'" using f f1 by simp_all
  show "net_log w' = net_log w @ portable_event env url"
    using l1 unfolding same by (simp add: portable_event_def)
  from download_file_portable_props [of env url dest_path expected_hash w]
  obtain ok2 w2 where r2: "download_file_portable env url dest_path expected_hash w = Inr (ok2, w2)"
    and m2: "\<forall>c d. files w2 dest_path = Some c \<and> supplied expected_hash = Some d \<longrightarrow>
        sha256_hexdigest env c = d"
    by blast
  have same2: "ok2 = ok" "w2 = w'" using r r2 by simp_all
  show "files w' dest_path \<noteq> Some existing"
    using m2 s unfolding same2 by blast
next
  fix digest ok w'
  assume e: "files w dest_path = Some existing"
    and s: "supplied expected_hash = Some digest \<and> sha256_hexdigest env existing \<noteq> digest"
    and r: "download_file_portable env url dest_path expected_hash w = Inr (ok, w')"
    and no: "\<not> has_curl env \<and> \<not> has_requests env"
  have f: "fetch_portable env url dest_path expected_hash (unlink dest_path w) = Inr (ok, w')"
    using download_file_portable_stale [OF e, of expected_hash digest env url] s r by simp
  then show "\<not> ok" "w' = unlink dest_path w"
    using no by (simp_all add: fetch_portable_def)
qed

lemma sample_refetch_run:
  "download_file sample_env good_url sample_dest (Some ''0a1b'') world_stale =
     (True, \<lparr>files = [sample_dest \<mapsto> ''good bytes''], dirs = {},
             net_log = [HttpGet good_url]\<rparr>)"
  by (simp add: download_file_def fetch_def verify_hash_eq supplied_def world_stale_def
      sample_env_def sample_digest_def sample_get_def good_url_def)

theorem existing_destination_protocol_witness:
  "download_file sample_env good_url sample_dest None world_stale = (True, world_stale) \<and>
   net_log (snd (download_file sample_env good_url sample_dest (Some ''0a1b'') world_stale)) =
     net_log world_stale @ [HttpGet good_url]"
proof -
  have e: "files world_stale sample_dest = Some ''old bytes''"
    by (simp add: world_stale_def)
  have n: "supplied None = None \<or>
           supplied None = Some (sha256_hexdigest sample_env ''old bytes'')"
    by (simp add: supplied_def)
  have s: "supplied (Some ''0a1b'') = Some ''0a1b'' \<and>
           sha256_hexdigest sample_env ''old bytes'' \<noteq> ''0a1b''"
    by (simp add: supplied_def sample_env_def sample_digest_def)
  have first: "download_file sample_env good_url sample_dest None world_stale =
               (True, world_stale)"
    using existing_destination_protocol [where w = world_stale and dest_path = sample_dest
        and existing = "''old bytes''" and expected_hash = None and env = sample_env
        and url = good_url, THEN mp, OF e] n
    by blast
  have second: "net_log \<lparr>files = [sample_dest \<mapsto> ''good bytes''], dirs = {},
                         net_log = [HttpGet good_url]\<rparr> =
                net_log world_stale @ [HttpGet good_url]"
    using existing_destination_protocol [where w = world_stale and dest_path = sample_dest
        and existing = "''old bytes''" and expected_hash = "Some ''0a1b''" and env = sample_env
        and url = good_url, THEN mp, OF e] s sample_refetch_run
    by blast
  show ?thesis
    using first second unfolding sample_refetch_run by simp
qed

section \<open>The plan runner\<close>

lemma has_url_cases:
  obtains (no_url) "\<not> has_url model" "dict_get model ''url'' = None \<or> dict_get model ''url'' = Some []"
    | (url) u where "has_url model" "dict_get model ''url'' = Some u" "u \<noteq> []"
  by (cases "dict_get model ''url''") (auto simp: has_url_def truthy_def)

lemma download_loop_no_url:
  "\<not> has_url model \<Longrightarrow>
   download_loop dl env dry (model # rest) (s, f, w) =
   download_loop dl env dry rest (s, f + 1, w)"
  by (cases model rule: has_url_cases) (auto simp: Let_def)

lemma download_loop_dry:
  "has_url model \<Longrightarrow>
   download_loop dl env True (model # rest) (s, f, w) =
   download_loop dl env True rest (s + 1, f, w)"
  by (cases model rule: has_url_cases) (auto simp: Let_def)

lemma download_loop_dry_run:
  "download_loop dl env True es (s, f, w) =
     Inr (s + length (filter has_url es), f + length (filter (\<lambda>m. \<not> has_url m) es), w)"
proof (induction es arbitrary: s f)
  case Nil
  show ?case by simp
next
  case (Cons model es)
  show ?case
  proof (cases "has_url model")
    case True
    show ?thesis
      unfolding download_loop_dry [OF True] using Cons.IH [of "s + 1" f] True by simp
  next
    case False
    show ?thesis
      unfolding download_loop_no_url [OF False] using Cons.IH [of s "f + 1"] False by simp
  qed
qed

text \<open>One step of a real run on an entry that has a URL.\<close>

lemma download_loop_real:
  assumes "dict_get model ''url'' = Some u" "u \<noteq> []"
  shows "download_loop dl env False (model # rest) (s, f, w) =
     (case model_filename env model u of
        Inl err \<Rightarrow> Inl err
      | Inr filename \<Rightarrow>
          (case dl env u
                  (path_join env (comfyui_path env)
                     (get_or model ''path'' ''models/checkpoints'') filename)
                  (dict_get model ''sha256'') w of
             Inl err \<Rightarrow> Inl err
           | Inr (ok, w') \<Rightarrow>
               download_loop dl env False rest
                 (if ok then (s + 1, f, w') else (s, f + 1, w'))))"
  using assms
  by (auto simp: Let_def split: sum.splits bool.splits prod.splits)

lemma download_loop_counts:
  "download_loop dl env dry es (s, f, w) = Inr (s', f', w') \<Longrightarrow>
   s' + f' = s + f + length es \<and>
   s' \<le> s + length (filter has_url es) \<and>
   f + length (filter (\<lambda>m. \<not> has_url m) es) \<le> f'"
proof (induction es arbitrary: s f w)
  case Nil
  then show ?case by simp
next
  case (Cons model es)
  show ?case
  proof (cases model rule: has_url_cases)
    case no_url
    have "download_loop dl env dry es (s, f + 1, w) = Inr (s', f', w')"
      using Cons.prems download_loop_no_url [OF no_url(1)] by simp
    from Cons.IH [OF this] show ?thesis using no_url(1) by simp
  next
    case (url u)
    show ?thesis
    proof (cases dry)
      case True
      have "download_loop dl env dry es (s + 1, f, w) = Inr (s', f', w')"
        using Cons.prems True download_loop_dry [OF url(1)] by simp
      from Cons.IH [OF this] show ?thesis using url(1) by simp
    next
      case False
      then have dry: "dry = False" by simp
      have "download_loop dl env False (model # es) (s, f, w) = Inr (s', f', w')"
        using Cons.prems dry by simp
      then obtain ok w1 where
        "download_loop dl env dry es (if ok then (s + 1, f, w1) else (s, f + 1, w1)) =
           Inr (s', f', w')"
        unfolding download_loop_real [OF url(2,3)] dry
        by (auto split: sum.splits prod.splits simp del: download_loop.simps)
      then show ?thesis
        using Cons.IH [of "s + 1" f w1] Cons.IH [of s "f + 1" w1] url(1)
        by (cases ok) auto
    qed
  qed
qed

text \<open>Entries without a URL only move the failure counter.\<close>

declare download_loop.simps(2) [simp del]

lemma add_failures_simps [simp]:
  "add_failures n (Inl err) = Inl err"
  "add_failures n (Inr (s, f, w)) = Inr (s, f + n, w)"
  by (simp_all add: add_failures_def)

lemma add_failures_0 [simp]: "add_failures 0 r = r"
  by (cases r) auto

lemma add_failures_add: "add_failures m (add_failures n r) = add_failures (n + m) r"
  by (cases r) auto

lemma download_loop_shift:
  "download_loop dl env dry es (s, f + n, w) =
   add_failures n (download_loop dl env dry es (s, f, w))"
proof (induction es arbitrary: s f w)
  case Nil
  show ?case by simp
next
  case (Cons model es)
  show ?case
  proof (cases model rule: has_url_cases)
    case no_url
    show ?thesis
      unfolding download_loop_no_url [OF no_url(1)]
      using Cons.IH [of s "f + 1" w] by (simp add: add.commute add.left_commute)
  next
    case (url u)
    show ?thesis
    proof (cases dry)
      case True
      then have "dry = True" by simp
      then show ?thesis by (simp add: download_loop_dry_run)
    next
      case False
      then have dry: "dry = False" by simp
      show ?thesis
      proof (cases "model_filename env model u")
        case (Inl err)
        then show ?thesis unfolding dry download_loop_real [OF url(2,3)] by simp
      next
        case (Inr filename)
        let ?dest = "path_join env (comfyui_path env)
                       (get_or model ''path'' ''models/checkpoints'') filename"
        show ?thesis
        proof (cases "dl env u ?dest (dict_get model ''sha256'') w")
          case (Inl err)
          then show ?thesis
            unfolding dry download_loop_real [OF url(2,3)] using Inr by simp
        next
          case (Inr r)
          obtain ok w1 where r: "r = (ok, w1)" by (cases r)
          show ?thesis
            unfolding dry download_loop_real [OF url(2,3)]
            using \<open>model_filename env model u = Inr filename\<close> Inr r
              Cons.IH [of "s + 1" f w1] Cons.IH [of s "f + 1" w1] dry
            by (cases ok) (simp_all add: add.commute add.left_commute del: download_loop.simps)
        qed
      qed
    qed
  qed
qed

lemma download_loop_filter:
  "download_loop dl env dry es (s, f, w) =
   add_failures (length (filter (\<lambda>m. \<not> has_url m) es))
     (download_loop dl env dry (filter has_url es) (s, f, w))"
proof (induction es arbitrary: s f w)
  case Nil
  show ?case by simp
next
  case (Cons model es)
  show ?case
  proof (cases model rule: has_url_cases)
    case no_url
    have "download_loop dl env dry (model # es) (s, f, w) =
          download_loop dl env dry es (s, f + 1, w)"
      by (rule download_loop_no_url [OF no_url(1)])
    also have "\<dots> = add_failures 1 (download_loop dl env dry es (s, f, w))"
      by (rule download_loop_shift)
    also have "\<dots> = add_failures 1 (add_failures (length (filter (\<lambda>m. \<not> has_url m) es))
                        (download_loop dl env dry (filter has_url es) (s, f, w)))"
      using Cons.IH [of s f w] by simp
    finally show ?thesis using no_url(1) by (simp add: add_failures_add)
  next
    case (url u)
    show ?thesis
    proof (cases dry)
      case True
      then have "dry = True" by simp
      then show ?thesis by (simp add: download_loop_dry_run)
    next
      case False
      then have dry: "dry = False" by simp
      show ?thesis
      proof (cases "model_filename env model u")
        case (Inl err)
        then show ?thesis
          using url(1) unfolding dry by (simp add: download_loop_real [OF url(2,3)] del: download_loop.simps)
      next
        case (Inr filename)
        let ?dest = "path_join env (comfyui_path env)
                       (get_or model ''path'' ''models/checkpoints'') filename"
        show ?thesis
        proof (cases "dl env u ?dest (dict_get model ''sha256'') w")
          case (Inl err)
          then show ?thesis
            using url(1) Inr unfolding dry
            by (simp add: download_loop_real [OF url(2,3)] del: download_loop.simps)
        next
          case (Inr r)
          obtain ok w1 where r: "r = (ok, w1)" by (cases r)
          show ?thesis
            using url(1) \<open>model_filename env model u = Inr filename\<close> Inr r
              Cons.IH [of "s + 1" f w1] Cons.IH [of s "f + 1" w1] dry
            by (cases ok)
               (simp_all add: download_loop_real [OF url(2,3)] del: download_loop.simps)
        qed
      qed
    qed
  qed
qed

text \<open>The dry run of the node installer.\<close>

lemma install_loop_dry_run:
  "install_loop env True ns (s, f, w) =
     (s + length (filter has_repo ns), f + length (filter (\<lambda>n. \<not> has_repo n) ns), w)"
proof (induction ns arbitrary: s f)
  case Nil
  show ?case by simp
next
  case (Cons node ns)
  show ?case
  proof (cases "dict_get node ''repo''")
    case None
    then have "\<not> has_repo node" by (simp add: has_repo_def truthy_def)
    then show ?thesis using None Cons.IH [of s "f + 1"] by (simp add: Let_def)
  next
    case (Some r)
    show ?thesis
    proof (cases "r = []")
      case True
      then have "\<not> has_repo node" using Some by (simp add: has_repo_def truthy_def)
      then show ?thesis using Some True Cons.IH [of s "f + 1"] by (simp add: Let_def)
    next
      case False
      then have "has_repo node" using Some by (simp add: has_repo_def truthy_def)
      then show ?thesis using Some False Cons.IH [of "s + 1" f] by (simp add: Let_def)
    qed
  qed
qed

lemma download_models_dry_run:
  "download_models dl env manifest types_filter True w =
     Inr (length (filter has_url (select_models manifest types_filter)),
          length (filter (\<lambda>m. \<not> has_url m) (select_models manifest types_filter)), w)"
  by (simp add: download_models_def Let_def download_loop_dry_run)

lemma install_custom_nodes_dry_run:
  "install_custom_nodes env manifest True w =
     (length (filter has_repo (get_list manifest ''custom_nodes'')),
      length (filter (\<lambda>n. \<not> has_repo n) (get_list manifest ''custom_nodes'')), w)"
  by (simp add: install_custom_nodes_def Let_def install_loop_dry_run)

lemma download_models_counts:
  assumes "download_models dl env manifest types_filter dry w = Inr (s', f', w')"
  shows "s' + f' = length (select_models manifest types_filter)"
    and "s' \<le> length (filter has_url (select_models manifest types_filter))"
    and "length (filter (\<lambda>m. \<not> has_url m) (select_models manifest types_filter)) \<le> f'"
proof -
  let ?sel = "select_models manifest types_filter"
  have "s' + f' = length ?sel \<and> s' \<le> length (filter has_url ?sel) \<and>
        length (filter (\<lambda>m. \<not> has_url m) ?sel) \<le> f'"
  proof (cases "?sel = []")
    case True
    then show ?thesis using assms by (simp add: download_models_def)
  next
    case False
    then have "download_loop dl env dry ?sel (0, 0, w) = Inr (s', f', w')"
      using assms by (simp add: download_models_def Let_def)
    from download_loop_counts [OF this] show ?thesis by simp
  qed
  then show "s' + f' = length ?sel"
    and "s' \<le> length (filter has_url ?sel)"
    and "length (filter (\<lambda>m. \<not> has_url m) ?sel) \<le> f'"
    by simp_all
qed

text \<open>
  C4.  A dry run of the plan runner, whatever the executor, returns as successes the
  number of selected entries that have a URL and as failures the number of those that
  have none, and leaves the world, files and network log, as it was; the dry run of
  the node installer does the same with \<open>repo\<close>.  In a dry run and in a real run alike
  an entry without a URL adds one failure and touches nothing, so a real run is the
  real run over the entries that have a URL with those failures added, and when it
  returns its two counts add up to the number of selected entries that the dry run
  counts, with no more successes and no fewer failures.  Both runs iterate the same
  selection.
\<close>

theorem dry_run_counts_without_transport:
  "download_models dl env manifest types_filter True w =
     Inr (length (filter has_url (select_models manifest types_filter)),
          length (filter (\<lambda>m. \<not> has_url m) (select_models manifest types_filter)), w) \<and>
   install_custom_nodes env manifest True w =
     (length (filter has_repo (get_list manifest ''custom_nodes'')),
      length (filter (\<lambda>n. \<not> has_repo n) (get_list manifest ''custom_nodes'')), w) \<and>
   (\<not> has_url model \<longrightarrow>
      download_loop dl env dry (model # rest) (s, f, w) =
        download_loop dl env dry rest (s, f + 1, w)) \<and>
   download_loop dl env False es (s, f, w) =
     add_failures (length (filter (\<lambda>m. \<not> has_url m) es))
       (download_loop dl env False (filter has_url es) (s, f, w)) \<and>
   (download_models dl env manifest types_filter False w = Inr (s', f', w') \<longrightarrow>
      s' + f' = length (select_models manifest types_filter) \<and>
      s' \<le> length (filter has_url (select_models manifest types_filter)) \<and>
      length (filter (\<lambda>m. \<not> has_url m) (select_models manifest types_filter)) \<le> f')"
proof (intro conjI impI)
  show "download_models dl env manifest types_filter True w =
     Inr (length (filter has_url (select_models manifest types_filter)),
          length (filter (\<lambda>m. \<not> has_url m) (select_models manifest types_filter)), w)"
    by (rule download_models_dry_run)
  show "install_custom_nodes env manifest True w =
     (length (filter has_repo (get_list manifest ''custom_nodes'')),
      length (filter (\<lambda>n. \<not> has_repo n) (get_list manifest ''custom_nodes'')), w)"
    by (rule install_custom_nodes_dry_run)
  show "download_loop dl env False es (s, f, w) =
     add_failures (length (filter (\<lambda>m. \<not> has_url m) es))
       (download_loop dl env False (filter has_url es) (s, f, w))"
    by (rule download_loop_filter)
next
  assume "\<not> has_url model"
  then show "download_loop dl env dry (model # rest) (s, f, w) =
        download_loop dl env dry rest (s, f + 1, w)"
    by (rule download_loop_no_url)
next
  assume r: "download_models dl env manifest types_filter False w = Inr (s', f', w')"
  show "s' + f' = length (select_models manifest types_filter)"
    and "s' \<le> length (filter has_url (select_models manifest types_filter))"
    and "length (filter (\<lambda>m. \<not> has_url m) (select_models manifest types_filter)) \<le> f'"
    using download_models_counts [OF r] by simp_all
qed

theorem dry_run_counts_without_transport_witness:
  "download_loop dl_full sample_env True [sample_no_url] (0, 0, empty_world) =
     Inr (0, 1, empty_world) \<and>
   download_loop dl_full sample_env False [sample_no_url] (0, 0, empty_world) =
     Inr (0, 1, empty_world)"
proof -
  have n: "\<not> has_url sample_no_url"
    by (simp add: has_url_def truthy_def dict_get_def sample_no_url_def)
  have "download_loop dl_full sample_env True [sample_no_url] (0, 0, empty_world) =
        download_loop dl_full sample_env True [] (0, 0 + 1, empty_world)"
    using dry_run_counts_without_transport [where model = sample_no_url and dl = dl_full
        and env = sample_env and dry = True and rest = "[]" and s = 0 and f = 0
        and w = empty_world] n
    by blast
  moreover
  have "download_loop dl_full sample_env False [sample_no_url] (0, 0, empty_world) =
        download_loop dl_full sample_env False [] (0, 0 + 1, empty_world)"
    using dry_run_counts_without_transport [where model = sample_no_url and dl = dl_full
        and env = sample_env and dry = False and rest = "[]" and s = 0 and f = 0
        and w = empty_world] n
    by blast
  ultimately show ?thesis by simp
qed

text \<open>
  C8.  With a non-empty type filter the runner selects exactly the entries of the plan
  whose \<open>type\<close> is a member of the filter, in plan order, and then behaves as the
  unfiltered runner does on a plan holding just these entries, so that its counts add
  up to their number.  The selection is a new list: after a run the loader still holds
  the plan that the merge built.
\<close>

theorem type_filter_selects_before_counting:
  "(ts \<noteq> [] \<longrightarrow>
      select_models manifest (Some ts) =
        filter (\<lambda>m. \<exists>t \<in> set ts. dict_get m ''type'' = Some t) (get_list manifest ''models'') \<and>
      download_models dl env manifest (Some ts) dry w =
        download_models dl env [(''models'', select_models manifest (Some ts))] None dry w \<and>
      (download_models dl env manifest (Some ts) dry w = Inr (s, f, w') \<longrightarrow>
         s + f = length (select_models manifest (Some ts)))) \<and>
   (\<not> (models_only a \<and> nodes_only a) \<and> main env a w = Inr r \<longrightarrow>
      loader r = fst (load_manifests (load_manifest env) (manifests a) init_manifest)) \<and>
   (main_portable env a w = Inr r \<longrightarrow>
      loader r = fst (load_manifests_portable (load_manifest env) (manifests a) init_manifest))"
proof (intro conjI impI)
  assume ne: "ts \<noteq> []"
  have "(\<lambda>m. case dict_get m ''type'' of None \<Rightarrow> False | Some t \<Rightarrow> t \<in> set ts) =
        (\<lambda>m. \<exists>t \<in> set ts. dict_get m ''type'' = Some t)"
    by (auto split: option.splits)
  then show sel: "select_models manifest (Some ts) =
        filter (\<lambda>m. \<exists>t \<in> set ts. dict_get m ''type'' = Some t) (get_list manifest ''models'')"
    using ne by (simp add: select_models_def)
  have "select_models [(''models'', select_models manifest (Some ts))] None =
        select_models manifest (Some ts)"
    by (simp add: select_models_def get_list_def dict_get_def)
  then show "download_models dl env manifest (Some ts) dry w =
        download_models dl env [(''models'', select_models manifest (Some ts))] None dry w"
    by (simp add: download_models_def)
next
  assume "ts \<noteq> []" and r: "download_models dl env manifest (Some ts) dry w = Inr (s, f, w')"
  show "s + f = length (select_models manifest (Some ts))"
    by (rule download_models_counts(1) [OF r])
next
  assume "\<not> (models_only a \<and> nodes_only a) \<and> main env a w = Inr r"
  then show "loader r = fst (load_manifests (load_manifest env) (manifests a) init_manifest)"
    by (auto simp: main_def Let_def split: prod.splits if_splits sum.splits)
next
  assume "main_portable env a w = Inr r"
  then show "loader r =
      fst (load_manifests_portable (load_manifest env) (manifests a) init_manifest)"
    by (auto simp: main_portable_def Let_def split: prod.splits if_splits sum.splits)
qed

theorem type_filter_selects_before_counting_witness:
  "select_models sample_plan (Some [''lora'']) = [sample_lora] \<and>
   download_models dl_full sample_env sample_plan (Some [''lora'']) True empty_world =
     Inr (1, 0, empty_world)"
proof -
  have ne: "[''lora''] \<noteq> []" by simp
  note t = type_filter_selects_before_counting [where ts = "[''lora'']"
      and manifest = sample_plan and dl = dl_full and env = sample_env and dry = True
      and w = empty_world, THEN conjunct1, THEN mp, OF ne]
  have sel: "select_models sample_plan (Some [''lora'']) = [sample_lora]"
    using t by (simp add: sample_plan_def get_list_def dict_get_def sample_lora_def
        sample_checkpoint_def)
  have "download_models dl_full sample_env sample_plan (Some [''lora'']) True empty_world =
        download_models dl_full sample_env [(''models'', [sample_lora])] None True empty_world"
    using t sel by simp
  also have "\<dots> = Inr (1, 0, empty_world)"
    by (simp add: download_models_def select_models_def get_list_def dict_get_def
        sample_lora_def download_loop.simps Let_def)
  finally show ?thesis using sel by simp
qed

section \<open>What the runner hands to the transport\<close>

lemma download_loop_real_Inr:
  assumes "dict_get model ''url'' = Some u" "u \<noteq> []"
    and "download_loop dl env False (model # rest) (s, f, w) = Inr res"
  obtains filename ok w1 where
    "model_filename env model u = Inr filename"
    "dl env u (path_join env (comfyui_path env)
        (get_or model ''path'' ''models/checkpoints'') filename)
      (dict_get model ''sha256'') w = Inr (ok, w1)"
    "download_loop dl env False rest (if ok then (s + 1, f, w1) else (s, f + 1, w1)) = Inr res"
proof (cases "model_filename env model u")
  case (Inl err)
  then show ?thesis using assms(3) unfolding download_loop_real [OF assms(1,2)] by simp
next
  case (Inr filename)
  let ?dest = "path_join env (comfyui_path env)
                 (get_or model ''path'' ''models/checkpoints'') filename"
  show ?thesis
  proof (cases "dl env u ?dest (dict_get model ''sha256'') w")
    case (Inl err)
    then show ?thesis
      using assms(3) \<open>model_filename env model u = Inr filename\<close>
      unfolding download_loop_real [OF assms(1,2)] by simp
  next
    case (Inr r)
    obtain ok w1 where r: "r = (ok, w1)" by (cases r)
    have "download_loop dl env False rest (if ok then (s + 1, f, w1) else (s, f + 1, w1)) =
          Inr res"
      using assms(3) \<open>model_filename env model u = Inr filename\<close> Inr r
      unfolding download_loop_real [OF assms(1,2)] by simp
    then show ?thesis
      using that \<open>model_filename env model u = Inr filename\<close> Inr r by blast
  qed
qed

lemma download_loop_log:
  assumes dl: "\<And>u d h w ok w'. dl env u d h w = Inr (ok, w') \<Longrightarrow>
                 set (net_log w') \<subseteq> set (net_log w) \<union> E u"
    and run: "download_loop dl env dry es (s, f, w) = Inr (s', f', w')"
    and ev: "ev \<in> set (net_log w')"
  shows "ev \<in> set (net_log w) \<or> (\<exists>e \<in> set es. \<exists>u. dict_get e ''url'' = Some u \<and> ev \<in> E u)"
  using run
proof (induction es arbitrary: s f w)
  case Nil
  then show ?case using ev by simp
next
  case (Cons model es)
  show ?case
  proof (cases model rule: has_url_cases)
    case no_url
    have "download_loop dl env dry es (s, f + 1, w) = Inr (s', f', w')"
      using Cons.prems download_loop_no_url [OF no_url(1)] by simp
    from Cons.IH [OF this] show ?thesis by auto
  next
    case (url u)
    show ?thesis
    proof (cases dry)
      case True
      then have "w' = w" using Cons.prems by (simp add: download_loop_dry_run)
      then show ?thesis using ev by simp
    next
      case False
      then have dry: "dry = False" by simp
      have "download_loop dl env False (model # es) (s, f, w) = Inr (s', f', w')"
        using Cons.prems dry by simp
      from download_loop_real_Inr [OF url(2,3) this]
      obtain filename ok w1 where
        d: "dl env u (path_join env (comfyui_path env)
                (get_or model ''path'' ''models/checkpoints'') filename)
              (dict_get model ''sha256'') w = Inr (ok, w1)"
        and rest: "download_loop dl env dry es (if ok then (s + 1, f, w1) else (s, f + 1, w1)) =
           Inr (s', f', w')"
        unfolding dry by blast
      have l1: "set (net_log w1) \<subseteq> set (net_log w) \<union> E u"
        by (rule dl [OF d])
      have "ev \<in> set (net_log w1) \<or>
            (\<exists>e \<in> set es. \<exists>u. dict_get e ''url'' = Some u \<and> ev \<in> E u)"
        using rest Cons.IH [of "s + 1" f w1] Cons.IH [of s "f + 1" w1] by (cases ok) simp_all
      then show ?thesis
      proof
        assume "ev \<in> set (net_log w1)"
        then have "ev \<in> set (net_log w) \<or> ev \<in> E u" using l1 by blast
        then show ?thesis using url(2) by auto
      next
        assume "\<exists>e \<in> set es. \<exists>u. dict_get e ''url'' = Some u \<and> ev \<in> E u"
        then show ?thesis by auto
      qed
    qed
  qed
qed

lemma dl_full_log:
  "dl_full env u d h w = Inr (ok, w') \<Longrightarrow>
   set (net_log w') \<subseteq> set (net_log w) \<union> {HttpGet u}"
proof -
  assume "dl_full env u d h w = Inr (ok, w')"
  then have "download_file env u d h w = (ok, w')" by (simp add: dl_full_def)
  from download_file_props(3) [OF this] show ?thesis by auto
qed

lemma dl_portable_log:
  "dl_portable env u d h w = Inr (ok, w') \<Longrightarrow>
   set (net_log w') \<subseteq> set (net_log w) \<union> {HttpGet u, Curl u}"
proof -
  assume r: "dl_portable env u d h w = Inr (ok, w')"
  from download_file_portable_props [of env u d h w]
  obtain ok1 w1 where r1: "download_file_portable env u d h w = Inr (ok1, w1)"
    and l: "net_log w1 = net_log w \<or> net_log w1 = net_log w @ portable_event env u"
    by blast
  have "w1 = w'" using r r1 by (simp add: dl_portable_def)
  then show ?thesis using l by (auto simp: portable_event_def split: if_splits)
qed

lemma select_models_subseq:
  "subseq (select_models manifest types_filter) (get_list manifest ''models'')"
  by (simp add: select_models_def Let_def split: option.splits)

lemma get_combined_manifest_lists [simp]:
  "get_list (get_combined_manifest self) ''models'' = models self"
  "get_list (get_combined_manifest self) ''custom_nodes'' = custom_nodes self"
  "get_list (get_combined_manifest_portable self) ''models'' = models self"
  by (simp_all add: get_combined_manifest_def get_combined_manifest_portable_def
      get_list_def dict_get_def)

text \<open>
  C9.  The plan stores first-seen records as they arrived: every entry of the merged
  plan (models and nodes, in both variants) is the first arriving entry that has its
  key, the list element itself, so each attribute, the \<open>url\<close> or \<open>repo\<close> in its original
  casing included, is that of the first record; lowercasing is used for the key alone.
  The combined manifest hands over these stored lists, the type filter selects a
  subsequence of them, and every network event that a run of the runner adds carries
  the \<open>url\<close> attribute of one of the entries it was given, character for character.
\<close>

theorem plan_stores_first_record_verbatim:
  "(case load_manifests load sources init_manifest of
      (self', totals) \<Rightarrow>
        (\<forall>p \<in> set (models self').
           List.find (\<lambda>e. model_key e = model_key p) (arriving_models load sources) = Some p) \<and>
        (\<forall>p \<in> set (custom_nodes self').
           List.find (\<lambda>e. node_key e = node_key p) (arriving_nodes load sources) = Some p) \<and>
        get_list (get_combined_manifest self') ''models'' = models self' \<and>
        get_list (get_combined_manifest self') ''custom_nodes'' = custom_nodes self' \<and>
        subseq (select_models (get_combined_manifest self') types_filter) (models self')) \<and>
   (case load_manifests_portable load sources init_manifest of
      (self', totals) \<Rightarrow>
        (\<forall>p \<in> set (models self').
           List.find (\<lambda>e. model_key e = model_key p) (arriving_models load sources) = Some p) \<and>
        get_list (get_combined_manifest_portable self') ''models'' = models self') \<and>
   (download_loop dl_full env dry es (s, f, w) = Inr (s', f', w') \<and> ev \<in> set (net_log w') \<longrightarrow>
      ev \<in> set (net_log w) \<or>
      (\<exists>e \<in> set es. \<exists>u. dict_get e ''url'' = Some u \<and> ev = HttpGet u)) \<and>
   (download_loop dl_portable env dry es (s, f, w) = Inr (s', f', w') \<and>
    ev \<in> set (net_log w') \<longrightarrow>
      ev \<in> set (net_log w) \<or>
      (\<exists>e \<in> set es. \<exists>u. dict_get e ''url'' = Some u \<and> (ev = HttpGet u \<or> ev = Curl u)))"
proof (intro conjI impI)
  obtain self' totals where r: "load_manifests load sources init_manifest = (self', totals)"
    by (cases "load_manifests load sources init_manifest")
  have m: "models self' = first_seen model_key {} (arriving_models load sources)"
    and n: "custom_nodes self' = first_seen node_key {} (arriving_nodes load sources)"
    using load_manifests_result [of load sources] r by (auto split: prod.splits)
  have "\<forall>p \<in> set (models self').
           List.find (\<lambda>e. model_key e = model_key p) (arriving_models load sources) = Some p"
    unfolding m using first_seen_find by blast
  moreover have "\<forall>p \<in> set (custom_nodes self').
           List.find (\<lambda>e. node_key e = node_key p) (arriving_nodes load sources) = Some p"
    unfolding n using first_seen_find by blast
  moreover have "subseq (select_models (get_combined_manifest self') types_filter) (models self')"
    using select_models_subseq [of "get_combined_manifest self'" types_filter] by simp
  ultimately show "case load_manifests load sources init_manifest of
      (self', totals) \<Rightarrow>
        (\<forall>p \<in> set (models self').
           List.find (\<lambda>e. model_key e = model_key p) (arriving_models load sources) = Some p) \<and>
        (\<forall>p \<in> set (custom_nodes self').
           List.find (\<lambda>e. node_key e = node_key p) (arriving_nodes load sources) = Some p) \<and>
        get_list (get_combined_manifest self') ''models'' = models self' \<and>
        get_list (get_combined_manifest self') ''custom_nodes'' = custom_nodes self' \<and>
        subseq (select_models (get_combined_manifest self') types_filter) (models self')"
    unfolding r by simp
next
  obtain self' totals where
    r: "load_manifests_portable load sources init_manifest = (self', totals)"
    by (cases "load_manifests_portable load sources init_manifest")
  have m: "models self' = first_seen model_key {} (arriving_models load sources)"
    using load_manifests_portable_result [of load sources] r by (auto split: prod.splits)
  have "\<forall>p \<in> set (models self').
           List.find (\<lambda>e. model_key e = model_key p) (arriving_models load sources) = Some p"
    unfolding m using first_seen_find by blast
  then show "case load_manifests_portable load sources init_manifest of
      (self', totals) \<Rightarrow>
        (\<forall>p \<in> set (models self').
           List.find (\<lambda>e. model_key e = model_key p) (arriving_models load sources) = Some p) \<and>
        get_list (get_combined_manifest_portable self') ''models'' = models self'"
    unfolding r by simp
next
  assume a: "download_loop dl_full env dry es (s, f, w) = Inr (s', f', w') \<and>
             ev \<in> set (net_log w')"
  have "ev \<in> set (net_log w) \<or>
        (\<exists>e \<in> set es. \<exists>u. dict_get e ''url'' = Some u \<and> ev \<in> {HttpGet u})"
    by (rule download_loop_log [where dl = dl_full and E = "\<lambda>u. {HttpGet u}",
          OF dl_full_log conjunct1 [OF a] conjunct2 [OF a]])
  then show "ev \<in> set (net_log w) \<or>
      (\<exists>e \<in> set es. \<exists>u. dict_get e ''url'' = Some u \<and> ev = HttpGet u)"
    by simp
next
  assume a: "download_loop dl_portable env dry es (s, f, w) = Inr (s', f', w') \<and>
             ev \<in> set (net_log w')"
  have "ev \<in> set (net_log w) \<or>
        (\<exists>e \<in> set es. \<exists>u. dict_get e ''url'' = Some u \<and> ev \<in> {HttpGet u, Curl u})"
    by (rule download_loop_log [where dl = dl_portable and E = "\<lambda>u. {HttpGet u, Curl u}",
          OF dl_portable_log conjunct1 [OF a] conjunct2 [OF a]])
  then show "ev \<in> set (net_log w) \<or>
      (\<exists>e \<in> set es. \<exists>u. dict_get e ''url'' = Some u \<and> (ev = HttpGet u \<or> ev = Curl u))"
    by simp
qed

lemma sample_merge:
  "load_manifests sample_load [''a.json'', ''b.json''] init_manifest =
     (\<lparr>models = [sample_upper], custom_nodes = [],
       seen_models = [''https://host.org/base.bin'' \<mapsto> ''a.json''],
       seen_nodes = Map.empty\<rparr>, 1, 1, 0, 0)"
  by (simp add: load_manifests_def sample_load_def add_manifest_def get_list_def dict_get_def
      sample_upper_def sample_lower_def init_manifest_def lower_def lower_char_def)

theorem plan_stores_first_record_verbatim_witness:
  "List.find (\<lambda>e. model_key e = model_key sample_upper)
     (arriving_models sample_load [''a.json'', ''b.json'']) = Some sample_upper \<and>
   dict_get sample_upper ''url'' = Some ''HTTPS://Host.org/Base.BIN''"
proof -
  have "\<forall>p \<in> set [sample_upper].
          List.find (\<lambda>e. model_key e = model_key p)
            (arriving_models sample_load [''a.json'', ''b.json'']) = Some p"
    using plan_stores_first_record_verbatim [where load = sample_load
        and sources = "[''a.json'', ''b.json'']", THEN conjunct1]
    unfolding sample_merge by simp
  then show ?thesis by (simp add: sample_upper_def dict_get_def)
qed

section \<open>Model entries without a URL in a whole run\<close>

lemma map_of_strip:
  "map_of (strip_models m) k =
     map_option (\<lambda>es. if k = ''models'' then filter has_url es else es) (map_of m k)"
  by (induction m) (auto simp: strip_models_def)

lemma get_list_strip:
  "get_list (strip_models m) ''models'' = filter has_url (get_list m ''models'')"
  "get_list (strip_models m) ''custom_nodes'' = get_list m ''custom_nodes''"
  by (simp_all add: get_list_def dict_get_def map_of_strip split: option.splits)

lemma strip_models_Nil: "strip_models m = [] \<longleftrightarrow> m = []"
  by (simp add: strip_models_def)

lemma has_url_key: "has_url e \<longleftrightarrow> model_key e \<noteq> None"
  by (simp add: has_url_def model_key_None)

lemma has_repo_key: "has_repo e \<longleftrightarrow> node_key e \<noteq> None"
  by (simp add: has_repo_def node_key_None)

lemma add_models_filter:
  "add_models source (filter has_url es) acc = add_models source es acc"
proof (induction es arbitrary: acc)
  case Nil
  show ?case by simp
next
  case (Cons e es)
  obtain self a k where acc: "acc = (self, a, k)" by (cases acc)
  show ?case
  proof (cases "model_key e")
    case None
    then have "\<not> has_url e" by (simp add: has_url_key)
    then show ?thesis
      using Cons.IH [of acc] acc add_models_skip [OF None]
      by (simp del: add_models.simps)
  next
    case (Some key)
    then have h: "has_url e" by (simp add: has_url_key)
    show ?thesis
    proof (cases "seen_models self key")
      case None
      show ?thesis
        using h acc Cons.IH add_models_new [OF Some None]
        by (simp del: add_models.simps)
    next
      case (Some src)
      show ?thesis
        using h acc Cons.IH add_models_duplicate [OF \<open>model_key e = Some key\<close> Some]
        by (simp del: add_models.simps)
    qed
  qed
qed

lemma add_manifest_strip:
  "add_manifest (strip_models m) source self = add_manifest m source self"
  by (simp add: add_manifest_def strip_models_Nil get_list_strip add_models_filter
      split: prod.splits)

lemma add_manifest_portable_strip:
  "add_manifest_portable (strip_models m) source self = add_manifest_portable m source self"
  by (simp add: add_manifest_portable_def strip_models_Nil get_list_strip add_models_filter
      split: prod.splits)

lemma load_manifests_loop_strip:
  "load_manifests_loop (\<lambda>source. map_option strip_models (load source)) sources acc =
   load_manifests_loop load sources acc"
proof (induction sources arbitrary: acc)
  case Nil
  obtain self tm tms tn tns where "acc = (self, tm, tms, tn, tns)" by (cases acc)
  then show ?case by simp
next
  case (Cons source rest)
  obtain self tm tms tn tns where acc: "acc = (self, tm, tms, tn, tns)" by (cases acc)
  show ?case
  proof (cases "load source")
    case None
    then show ?thesis using Cons.IH acc by simp
  next
    case (Some m)
    then show ?thesis using Cons.IH acc
      by (simp add: strip_models_Nil add_manifest_strip split: prod.splits)
  qed
qed

lemma load_manifests_loop_portable_strip:
  "load_manifests_loop_portable (\<lambda>source. map_option strip_models (load source)) sources acc =
   load_manifests_loop_portable load sources acc"
proof (induction sources arbitrary: acc)
  case Nil
  obtain self tm tms where "acc = (self, tm, tms)" by (cases acc)
  then show ?case by simp
next
  case (Cons source rest)
  obtain self tm tms where acc: "acc = (self, tm, tms)" by (cases acc)
  show ?case
  proof (cases "load source")
    case None
    then show ?thesis using Cons.IH acc by simp
  next
    case (Some m)
    then show ?thesis using Cons.IH acc
      by (simp add: strip_models_Nil add_manifest_portable_strip split: prod.splits)
  qed
qed

text \<open>Nothing after the merge reads \<open>load_manifest\<close>.\<close>

lemma verify_hash_load [simp]:
  "verify_hash (env\<lparr>load_manifest := L\<rparr>) = verify_hash env"
  by (intro ext) (simp add: verify_hash_def cong: option.case_cong)

lemma download_file_load [simp]:
  "download_file (env\<lparr>load_manifest := L\<rparr>) = download_file env"
  by (intro ext)
     (simp add: download_file_def fetch_def
        cong: option.case_cong sum.case_cong http_result.case_cong if_cong)

lemma download_file_portable_load [simp]:
  "download_file_portable (env\<lparr>load_manifest := L\<rparr>) = download_file_portable env"
  by (intro ext)
     (simp add: download_file_portable_def fetch_portable_def check_download_def
        download_with_curl_def download_with_requests_def
        cong: option.case_cong sum.case_cong http_result.case_cong curl_result.case_cong
          prod.case_cong if_cong)

lemma model_filename_load [simp]:
  "model_filename (env\<lparr>load_manifest := L\<rparr>) = model_filename env"
  by (intro ext)
     (simp add: model_filename_def cong: option.case_cong sum.case_cong if_cong)

lemma clone_repo_load [simp]:
  "clone_repo (env\<lparr>load_manifest := L\<rparr>) = clone_repo env"
  by (intro ext) (simp add: clone_repo_def cong: if_cong)

lemma download_loop_load:
  assumes "dl (env\<lparr>load_manifest := L\<rparr>) = dl env"
  shows "download_loop dl (env\<lparr>load_manifest := L\<rparr>) dry es acc =
         download_loop dl env dry es acc"
proof (induction es arbitrary: acc dry)
  case Nil
  obtain s f w where "acc = (s, f, w)" by (cases acc)
  then show ?case by simp
next
  case (Cons model es)
  obtain s f w where acc: "acc = (s, f, w)" by (cases acc)
  show ?case
    unfolding acc download_loop.simps(2) using Cons.IH assms
    by (simp add: Let_def cong: option.case_cong sum.case_cong prod.case_cong bool.case_cong
        if_cong)
qed

lemma install_loop_load:
  "install_loop (env\<lparr>load_manifest := L\<rparr>) dry ns acc = install_loop env dry ns acc"
proof (induction ns arbitrary: acc dry)
  case Nil
  obtain s f w where "acc = (s, f, w)" by (cases acc)
  then show ?case by simp
next
  case (Cons node ns)
  obtain s f w where acc: "acc = (s, f, w)" by (cases acc)
  show ?case
    unfolding acc using Cons.IH
    by (simp add: Let_def cong: option.case_cong prod.case_cong bool.case_cong if_cong)
qed

lemma dl_full_load [simp]: "dl_full (env\<lparr>load_manifest := L\<rparr>) = dl_full env"
  by (intro ext) (simp add: dl_full_def)

lemma dl_portable_load [simp]: "dl_portable (env\<lparr>load_manifest := L\<rparr>) = dl_portable env"
  by (simp add: dl_portable_def)

lemma download_models_load:
  "dl (env\<lparr>load_manifest := L\<rparr>) = dl env \<Longrightarrow>
   download_models dl (env\<lparr>load_manifest := L\<rparr>) = download_models dl env"
  by (intro ext) (simp add: download_models_def download_loop_load Let_def cong: if_cong)

lemma install_custom_nodes_load [simp]:
  "install_custom_nodes (env\<lparr>load_manifest := L\<rparr>) = install_custom_nodes env"
  by (intro ext) (simp add: install_custom_nodes_def install_loop_load Let_def cong: if_cong)

lemma main_strip:
  "main (env\<lparr>load_manifest := \<lambda>source. map_option strip_models (load_manifest env source)\<rparr>) a w =
   main env a w"
  by (simp add: main_def load_manifests_def load_manifests_loop_strip Let_def
      download_models_load [where dl = dl_full, OF dl_full_load]
      cong: prod.case_cong sum.case_cong if_cong)

lemma main_portable_strip:
  "main_portable
     (env\<lparr>load_manifest := \<lambda>source. map_option strip_models (load_manifest env source)\<rparr>) a w =
   main_portable env a w"
  by (simp add: main_portable_def load_manifests_portable_def
      load_manifests_loop_portable_strip Let_def
      download_models_load [where dl = dl_portable, OF dl_portable_load]
      cong: prod.case_cong sum.case_cong if_cong)

lemma merged_models_have_url:
  "p \<in> set (models (fst (load_manifests load sources init_manifest))) \<Longrightarrow> has_url p"
proof -
  assume p: "p \<in> set (models (fst (load_manifests load sources init_manifest)))"
  obtain self' totals where r: "load_manifests load sources init_manifest = (self', totals)"
    by (cases "load_manifests load sources init_manifest")
  have "models self' = first_seen model_key {} (arriving_models load sources)"
    using load_manifests_result [of load sources] r by (auto split: prod.splits)
  then have "model_key p \<noteq> None" using p r first_seen_keyed by fastforce
  then show ?thesis by (simp add: has_url_key)
qed

lemma merged_nodes_have_repo:
  "n \<in> set (custom_nodes (fst (load_manifests load sources init_manifest))) \<Longrightarrow> has_repo n"
proof -
  assume n: "n \<in> set (custom_nodes (fst (load_manifests load sources init_manifest)))"
  obtain self' totals where r: "load_manifests load sources init_manifest = (self', totals)"
    by (cases "load_manifests load sources init_manifest")
  have "custom_nodes self' = first_seen node_key {} (arriving_nodes load sources)"
    using load_manifests_result [of load sources] r by (auto split: prod.splits)
  then have "node_key n \<noteq> None" using n r first_seen_keyed by fastforce
  then show ?thesis by (simp add: has_repo_key)
qed

lemma merged_models_portable_have_url:
  "p \<in> set (models (fst (load_manifests_portable load sources init_manifest))) \<Longrightarrow> has_url p"
proof -
  assume p: "p \<in> set (models (fst (load_manifests_portable load sources init_manifest)))"
  obtain self' totals where
    r: "load_manifests_portable load sources init_manifest = (self', totals)"
    by (cases "load_manifests_portable load sources init_manifest")
  have "models self' = first_seen model_key {} (arriving_models load sources)"
    using load_manifests_portable_result [of load sources] r by (auto split: prod.splits)
  then have "model_key p \<noteq> None" using p r first_seen_keyed by fastforce
  then show ?thesis by (simp add: has_url_key)
qed

lemma select_models_subset:
  "set (select_models manifest types_filter) \<subseteq> set (get_list manifest ''models'')"
  by (auto simp: select_models_def Let_def split: option.splits if_splits)

lemma filter_none: "(\<forall>x \<in> set xs. P x) \<Longrightarrow> filter (\<lambda>x. \<not> P x) xs = []"
  by (induction xs) auto

lemma main_loader:
  "main env a w = Inr r \<Longrightarrow>
   loader r = init_manifest \<or>
   loader r = fst (load_manifests (load_manifest env) (manifests a) init_manifest)"
  by (auto simp: main_def Let_def split: prod.splits if_splits sum.splits)

lemma main_portable_loader:
  "main_portable env a w = Inr r \<Longrightarrow>
   loader r = fst (load_manifests_portable (load_manifest env) (manifests a) init_manifest)"
  by (auto simp: main_portable_def Let_def split: prod.splits if_splits sum.splits)

lemma dry_models_no_failure:
  assumes "\<forall>p \<in> set (models self). has_url p"
  shows "download_models dl env (get_combined_manifest self) types_filter True w =
           Inr (length (select_models (get_combined_manifest self) types_filter), 0, w)"
    and "download_models dl env (get_combined_manifest_portable self) types_filter True w =
           Inr (length (select_models (get_combined_manifest_portable self) types_filter), 0, w)"
proof -
  have a: "\<forall>p \<in> set (select_models (get_combined_manifest self) types_filter). has_url p"
    using assms select_models_subset [of "get_combined_manifest self" types_filter] by auto
  have b: "\<forall>p \<in> set (select_models (get_combined_manifest_portable self) types_filter).
             has_url p"
    using assms select_models_subset [of "get_combined_manifest_portable self" types_filter]
    by auto
  show "download_models dl env (get_combined_manifest self) types_filter True w =
           Inr (length (select_models (get_combined_manifest self) types_filter), 0, w)"
    using a by (simp add: download_models_dry_run filter_none)
  show "download_models dl env (get_combined_manifest_portable self) types_filter True w =
           Inr (length (select_models (get_combined_manifest_portable self) types_filter), 0, w)"
    using b by (simp add: download_models_dry_run filter_none)
qed

lemma dry_nodes_no_failure:
  assumes "\<forall>n \<in> set (custom_nodes self). has_repo n"
  shows "install_custom_nodes env (get_combined_manifest self) True w =
           (length (custom_nodes self), 0, w)"
  using assms by (simp add: install_custom_nodes_dry_run filter_none)

lemma main_dry_run_no_failure:
  assumes "dry_run a" "main env a w = Inr r"
  shows "total_fail r = 0"
proof (cases "models_only a \<and> nodes_only a")
  case True
  then show ?thesis using assms(2) by (auto simp: main_def)
next
  case False
  obtain self' totals where
    l: "load_manifests (load_manifest env) (manifests a) init_manifest = (self', totals)"
    by (cases "load_manifests (load_manifest env) (manifests a) init_manifest")
  have m: "\<forall>p \<in> set (models self'). has_url p"
    using merged_models_have_url [of _ "load_manifest env" "manifests a"] l by simp
  have n: "\<forall>n \<in> set (custom_nodes self'). has_repo n"
    using merged_nodes_have_repo [of _ "load_manifest env" "manifests a"] l by simp
  show ?thesis
    using assms False l dry_models_no_failure(1) [OF m] dry_nodes_no_failure [OF n]
    by (auto simp: main_def Let_def split: if_splits)
qed

lemma main_portable_dry_run_no_failure:
  assumes "dry_run a" "main_portable env a w = Inr r"
  shows "total_fail r = 0"
proof -
  obtain self' totals where
    l: "load_manifests_portable (load_manifest env) (manifests a) init_manifest = (self', totals)"
    by (cases "load_manifests_portable (load_manifest env) (manifests a) init_manifest")
  have m: "\<forall>p \<in> set (models self'). has_url p"
    using merged_models_portable_have_url [of _ "load_manifest env" "manifests a"] l by simp
  show ?thesis
    using assms l dry_models_no_failure(2) [OF m]
    by (auto simp: main_portable_def Let_def split: if_splits)
qed

text \<open>
  C3 (as stated).  The claim has a model entry without \<open>url\<close> add exactly one failure to
  the final count of the run.  A real run over a manifest that holds such an entry and
  one good model ends with one success, no failure and exit code 0: the merge has
  dropped the entry, so the runner never sees it.
\<close>

theorem url_less_model_not_counted_counterexample:
  "sample_load_no_url ''c.json'' = Some [(''models'', [sample_no_url, sample_checkpoint])] \<and>
   dict_get sample_no_url ''url'' = None \<and>
   main no_url_env sample_args_real empty_world =
     Inr \<lparr>exit_code = 0, total_success = 1, total_fail = 0,
          loader = \<lparr>models = [sample_checkpoint], custom_nodes = [],
                     seen_models = [''https://host.org/good.bin'' \<mapsto> ''c.json''],
                     seen_nodes = Map.empty\<rparr>,
          after = \<lparr>files = [''/app/ComfyUI/models/checkpoints/good.bin'' \<mapsto> ''good bytes''],
                    dirs = {}, net_log = [HttpGet ''https://host.org/good.bin'']\<rparr>\<rparr>"
proof -
  have l: "load_manifests (load_manifest no_url_env) (manifests sample_args_real) init_manifest =
           (\<lparr>models = [sample_checkpoint], custom_nodes = [],
              seen_models = [''https://host.org/good.bin'' \<mapsto> ''c.json''],
              seen_nodes = Map.empty\<rparr>, 1, 0, 0, 0)"
    by (simp add: load_manifests_def no_url_env_def sample_args_real_def sample_args_dry_def
        sample_load_no_url_def add_manifest_def get_list_def dict_get_def sample_no_url_def
        sample_checkpoint_def init_manifest_def lower_def lower_char_def)
  have f: "model_filename no_url_env sample_checkpoint ''https://host.org/good.bin'' =
           Inr ''good.bin''"
    by (simp add: model_filename_def no_url_env_def sample_env_def sample_urlpath_def
        sample_checkpoint_def dict_get_def truthy_def basename_def get_or_def)
  have d: "download_file no_url_env ''https://host.org/good.bin''
             ''/app/ComfyUI/models/checkpoints/good.bin'' None empty_world =
           (True, \<lparr>files = [''/app/ComfyUI/models/checkpoints/good.bin'' \<mapsto> ''good bytes''],
                    dirs = {}, net_log = [HttpGet ''https://host.org/good.bin'']\<rparr>)"
    by (simp add: download_file_def fetch_def supplied_def no_url_env_def sample_env_def
        sample_get_def empty_world_def)
  have m: "download_models dl_full no_url_env
             [(''models'', [sample_checkpoint]), (''custom_nodes'', [])] None False empty_world =
           Inr (1, 0, \<lparr>files = [''/app/ComfyUI/models/checkpoints/good.bin'' \<mapsto> ''good bytes''],
                        dirs = {}, net_log = [HttpGet ''https://host.org/good.bin'']\<rparr>)"
    using f d
    by (simp add: download_models_def select_models_def get_list_def dict_get_def
        download_loop.simps dl_full_def get_or_def sample_checkpoint_def no_url_env_def
        sample_env_def sample_join_def)
  show ?thesis
    using l m
    by (simp add: main_def get_combined_manifest_def install_custom_nodes_def get_list_def
        dict_get_def sample_args_real_def sample_args_dry_def sample_load_no_url_def
        sample_no_url_def)
qed

text \<open>
  C3 (amended).  A model entry without \<open>url\<close> is inert and is not counted at all: every
  entry of the plan that a run has merged has a URL; the whole run, exit code, both
  totals, plan and world, is the run it would be had every manifest been loaded without
  such entries; and a dry run ends with a failure count of 0.  This holds in both
  variants.
\<close>

theorem url_less_models_are_dropped_uncounted:
  "(main env a w = Inr r \<longrightarrow> (\<forall>p \<in> set (models (loader r)). has_url p)) \<and>
   (main_portable env a w = Inr r \<longrightarrow> (\<forall>p \<in> set (models (loader r)). has_url p)) \<and>
   main (env\<lparr>load_manifest :=
              \<lambda>source. map_option strip_models (load_manifest env source)\<rparr>) a w =
     main env a w \<and>
   main_portable (env\<lparr>load_manifest :=
              \<lambda>source. map_option strip_models (load_manifest env source)\<rparr>) a w =
     main_portable env a w \<and>
   get_list (strip_models manifest) ''models'' = filter has_url (get_list manifest ''models'') \<and>
   (dry_run a \<and> main env a w = Inr r \<longrightarrow> total_fail r = 0) \<and>
   (dry_run a \<and> main_portable env a w = Inr r \<longrightarrow> total_fail r = 0)"
proof (intro conjI impI ballI)
  fix p
  assume r: "main env a w = Inr r" and p: "p \<in> set (models (loader r))"
  from main_loader [OF r] show "has_url p"
  proof
    assume "loader r = init_manifest"
    then show ?thesis using p by (simp add: init_manifest_def)
  next
    assume "loader r = fst (load_manifests (load_manifest env) (manifests a) init_manifest)"
    then show ?thesis using p merged_models_have_url by simp
  qed
next
  fix p
  assume r: "main_portable env a w = Inr r" and p: "p \<in> set (models (loader r))"
  show "has_url p"
    using main_portable_loader [OF r] p merged_models_portable_have_url by simp
next
  show "main (env\<lparr>load_manifest :=
              \<lambda>source. map_option strip_models (load_manifest env source)\<rparr>) a w =
     main env a w"
    by (rule main_strip)
  show "main_portable (env\<lparr>load_manifest :=
              \<lambda>source. map_option strip_models (load_manifest env source)\<rparr>) a w =
     main_portable env a w"
    by (rule main_portable_strip)
  show "get_list (strip_models manifest) ''models'' =
        filter has_url (get_list manifest ''models'')"
    by (rule get_list_strip(1))
next
  assume "dry_run a \<and> main env a w = Inr r"
  then show "total_fail r = 0" using main_dry_run_no_failure by blast
next
  assume "dry_run a \<and> main_portable env a w = Inr r"
  then show "total_fail r = 0" using main_portable_dry_run_no_failure by blast
qed

lemma sample_dry_run:
  "main no_url_env sample_args_dry empty_world =
     Inr \<lparr>exit_code = 0, total_success = 1, total_fail = 0,
          loader = \<lparr>models = [sample_checkpoint], custom_nodes = [],
                     seen_models = [''https://host.org/good.bin'' \<mapsto> ''c.json''],
                     seen_nodes = Map.empty\<rparr>,
          after = empty_world\<rparr>"
proof -
  have l: "load_manifests (load_manifest no_url_env) (manifests sample_args_dry) init_manifest =
           (\<lparr>models = [sample_checkpoint], custom_nodes = [],
              seen_models = [''https://host.org/good.bin'' \<mapsto> ''c.json''],
              seen_nodes = Map.empty\<rparr>, 1, 0, 0, 0)"
    by (simp add: load_manifests_def no_url_env_def sample_args_dry_def
        sample_load_no_url_def add_manifest_def get_list_def dict_get_def sample_no_url_def
        sample_checkpoint_def init_manifest_def lower_def lower_char_def)
  have m: "download_models dl_full no_url_env
             [(''models'', [sample_checkpoint]), (''custom_nodes'', [])] None True empty_world =
           Inr (1, 0, empty_world)"
    by (simp add: download_models_dry_run select_models_def get_list_def dict_get_def
        has_url_def truthy_def sample_checkpoint_def)
  show ?thesis
    using l m
    by (simp add: main_def get_combined_manifest_def install_custom_nodes_def get_list_def
        dict_get_def sample_args_dry_def)
qed

theorem url_less_models_are_dropped_uncounted_witness:
  "main no_url_env sample_args_dry empty_world =
     Inr \<lparr>exit_code = 0, total_success = 1, total_fail = 0,
          loader = \<lparr>models = [sample_checkpoint], custom_nodes = [],
                     seen_models = [''https://host.org/good.bin'' \<mapsto> ''c.json''],
                     seen_nodes = Map.empty\<rparr>,
          after = empty_world\<rparr> \<and>
   dry_run sample_args_dry \<and>
   total_fail \<lparr>exit_code = 0, total_success = 1, total_fail = 0,
          loader = \<lparr>models = [sample_checkpoint], custom_nodes = [],
                     seen_models = [''https://host.org/good.bin'' \<mapsto> ''c.json''],
                     seen_nodes = Map.empty\<rparr>,
          after = empty_world\<rparr> = 0 \<and>
   has_url sample_checkpoint"
proof -
  have d: "dry_run sample_args_dry" by (simp add: sample_args_dry_def)
  note t = url_less_models_are_dropped_uncounted [where env = no_url_env
      and a = sample_args_dry and w = empty_world]
  have "total_fail \<lparr>exit_code = 0, total_success = 1, total_fail = 0,
          loader = \<lparr>models = [sample_checkpoint], custom_nodes = [],
                     seen_models = [''https://host.org/good.bin'' \<mapsto> ''c.json''],
                     seen_nodes = Map.empty\<rparr>,
          after = empty_world\<rparr> = 0"
    using t d sample_dry_run by blast
  moreover have "has_url sample_checkpoint"
    using t sample_dry_run by fastforce
  ultimately show ?thesis using d sample_dry_run by simp
qed

end
